theory Spec2Isabelle
  imports Complex_Main
begin

section \<open>Website Watchdog: data model\<close>

text \<open>
  The embedding follows \<^verbatim>\<open>watchdog.py\<close> and \<^verbatim>\<open>alerter.py\<close>. Rows of the SQLite tables
  and the dictionaries passed between the functions are records; a key that a dictionary
  may lack, and a column that may be NULL, is an \<open>option\<close> field. Python integers are
  \<open>int\<close>, row ids are \<open>nat\<close>, the measured response time (a float) is a \<open>real\<close>.
\<close>

text \<open>A row of the \<^verbatim>\<open>targets\<close> table, with \<^verbatim>\<open>alert_channels\<close> already decoded by \<^verbatim>\<open>json.loads\<close>.\<close>

record target =
  t_id :: nat
  t_name :: string
  t_url :: string
  t_method :: string
  t_expected_status :: int
  t_timeout :: int
  t_contains :: "string option"
  t_enabled :: bool
  t_alert_channels :: "string list"

text \<open>
  The dictionary returned by \<^verbatim>\<open>check_target\<close> and read by \<^verbatim>\<open>handle_result\<close> and the alerter.
  \<open>None\<close> in \<open>r_status_code\<close>, \<open>r_response_time\<close> and \<open>r_alert_channels\<close> is an absent
  key (the code reads them with \<^verbatim>\<open>.get\<close>); in \<open>r_error_message\<close> it is absent or \<^verbatim>\<open>None\<close>.
\<close>

record check_result =
  r_target_id :: nat
  r_name :: string
  r_status :: string
  r_status_code :: "int option"
  r_response_time :: "real option"
  r_error_message :: "string option"
  r_check_id :: nat
  r_alert_channels :: "string list option"

text \<open>A row of the \<^verbatim>\<open>checks\<close> table.\<close>

record check_row =
  c_id :: nat
  c_target_id :: nat
  c_status :: string
  c_status_code :: "int option"
  c_response_time :: "real option"
  c_error_message :: "string option"

text \<open>
  A row of the \<^verbatim>\<open>incidents\<close> table. The timestamps are seconds of the store's clock;
  the three alert columns hold 0 or 1.
\<close>

record incident =
  inc_id :: nat
  inc_target_id :: nat
  inc_status :: string
  started_at :: nat
  resolved_at :: "nat option"
  failure_count :: int
  last_check_id :: nat
  slack_alerted :: int
  email_alerted :: int
  sms_alerted :: int

text \<open>
  Exceptions that the modelled code can raise: an error of the SQLite driver (with its
  message), and the \<^verbatim>\<open>ValueError\<close> of \<^verbatim>\<open>int(os.getenv('SMTP_PORT', 587))\<close>.
\<close>

datatype exn = SqliteError string | ValueError string

fun str_exn :: "exn \<Rightarrow> string" where
  "str_exn (SqliteError m) = m"
| "str_exn (ValueError m) = m"

text \<open>
  The store behind \<^verbatim>\<open>WatchdogDB\<close>: the three tables in insertion order, and \<open>faults\<close>,
  the outcomes of the statements still to be executed on the connection: \<open>Some m\<close> makes
  the next statement raise \<^verbatim>\<open>sqlite3.Error(m)\<close> and change nothing, \<open>None\<close> (or an
  exhausted list) lets it run and commit.
\<close>

record store =
  targets :: "target list"
  checks :: "check_row list"
  incidents :: "incident list"
  faults :: "string option list"

section \<open>Persistence gateway (class WatchdogDB)\<close>

text \<open>One \<^verbatim>\<open>cursor.execute\<close> with its \<^verbatim>\<open>commit\<close>: raises when the next fault says so.\<close>

definition execute :: "store \<Rightarrow> (store \<Rightarrow> 'a \<times> store) \<Rightarrow> (exn + 'a) \<times> store" where
  "execute s f =
     (case faults s of
        Some m # rest \<Rightarrow> (Inl (SqliteError m), s\<lparr>faults := rest\<rparr>)
      | _ \<Rightarrow> (case f (s\<lparr>faults := tl (faults s)\<rparr>) of (a, s') \<Rightarrow> (Inr a, s')))"

text \<open>
  \<^verbatim>\<open>cursor.lastrowid\<close> of an insert into a table with an integer primary key: one more
  than the largest id in the table (no row of these tables is ever deleted by the code).
\<close>

definition next_rowid :: "nat list \<Rightarrow> nat" where
  "next_rowid ids = Suc (fold max ids 0)"

definition get_active_targets :: "store \<Rightarrow> (exn + target list) \<times> store" where
  "get_active_targets s = execute s (\<lambda>s. (filter t_enabled (targets s), s))"

definition record_check ::
  "nat \<Rightarrow> string \<Rightarrow> int option \<Rightarrow> real option \<Rightarrow> string option \<Rightarrow> store \<Rightarrow> (exn + nat) \<times> store" where
  "record_check target_id status status_code response_time error_message s =
     execute s (\<lambda>s.
       let cid = next_rowid (map c_id (checks s)) in
       (cid, s\<lparr>checks := checks s @
          [\<lparr>c_id = cid, c_target_id = target_id, c_status = status,
            c_status_code = status_code, c_response_time = response_time,
            c_error_message = error_message\<rparr>]\<rparr>))"

text \<open>
  \<^verbatim>\<open>SELECT * FROM incidents WHERE target_id = ? AND status = 'open' ORDER BY started_at DESC LIMIT 1\<close>.
  \<open>open_rows\<close> is the WHERE clause, \<open>pick_latest\<close> the ORDER BY with LIMIT 1: a row with
  the greatest \<open>started_at\<close>. SQL leaves the choice among rows with equal \<open>started_at\<close>
  open; the model takes the earliest inserted of them.
\<close>

definition open_rows :: "nat \<Rightarrow> incident list \<Rightarrow> incident list" where
  "open_rows target_id rows =
     filter (\<lambda>i. inc_target_id i = target_id \<and> inc_status i = ''open'') rows"

definition later_row :: "incident \<Rightarrow> incident \<Rightarrow> incident" where
  "later_row i best = (if started_at best < started_at i then i else best)"

fun pick_latest :: "incident list \<Rightarrow> incident option" where
  "pick_latest [] = None"
| "pick_latest (i # rows) = Some (fold later_row rows i)"

definition open_incident :: "nat \<Rightarrow> incident list \<Rightarrow> incident option" where
  "open_incident target_id rows = pick_latest (open_rows target_id rows)"

definition get_open_incident :: "nat \<Rightarrow> store \<Rightarrow> (exn + incident option) \<times> store" where
  "get_open_incident target_id s =
     execute s (\<lambda>s. (open_incident target_id (incidents s), s))"

text \<open>
  Modelled from the spec: the file \<^verbatim>\<open>db/schema.sql\<close> is not part of the sources, so the
  defaults of the columns that the insert of \<^verbatim>\<open>create_incident\<close> leaves out are taken from
  the data model of the spec and from the tests (\<^verbatim>\<open>test_create_incident\<close>,
  \<^verbatim>\<open>test_mark_alert_sent\<close>): status \<^verbatim>\<open>'open'\<close>, \<open>started_at\<close> the current timestamp,
  \<open>resolved_at\<close> NULL, the alert columns 0. The argument \<open>now\<close> is CURRENT_TIMESTAMP at
  the time of the statement.
\<close>

definition new_incident :: "nat \<Rightarrow> nat \<Rightarrow> nat \<Rightarrow> nat \<Rightarrow> incident" where
  "new_incident now iid target_id check_id =
     \<lparr>inc_id = iid, inc_target_id = target_id, inc_status = ''open'',
      started_at = now, resolved_at = None, failure_count = 1,
      last_check_id = check_id, slack_alerted = 0, email_alerted = 0, sms_alerted = 0\<rparr>"

text \<open>\<^verbatim>\<open>INSERT INTO incidents (target_id, last_check_id, failure_count) VALUES (?, ?, 1)\<close>.\<close>

definition create_incident :: "nat \<Rightarrow> nat \<Rightarrow> nat \<Rightarrow> store \<Rightarrow> (exn + nat) \<times> store" where
  "create_incident now target_id check_id s =
     execute s (\<lambda>s.
       let iid = next_rowid (map inc_id (incidents s)) in
       (iid, s\<lparr>incidents := incidents s @ [new_incident now iid target_id check_id]\<rparr>))"

text \<open>\<^verbatim>\<open>UPDATE incidents SET ... WHERE id = ?\<close>: every row with that id is rewritten.\<close>

definition update_where_id :: "nat \<Rightarrow> (incident \<Rightarrow> incident) \<Rightarrow> incident list \<Rightarrow> incident list" where
  "update_where_id iid f rows = map (\<lambda>i. if inc_id i = iid then f i else i) rows"

definition update_incident :: "nat \<Rightarrow> nat \<Rightarrow> bool \<Rightarrow> store \<Rightarrow> (exn + unit) \<times> store" where
  "update_incident incident_id check_id increment_count s =
     execute s (\<lambda>s.
       ((), s\<lparr>incidents :=
          update_where_id incident_id
            (\<lambda>i. if increment_count
                  then i\<lparr>last_check_id := check_id, failure_count := failure_count i + 1\<rparr>
                  else i\<lparr>last_check_id := check_id\<rparr>)
            (incidents s)\<rparr>))"

definition resolve_incident :: "nat \<Rightarrow> nat \<Rightarrow> store \<Rightarrow> (exn + unit) \<times> store" where
  "resolve_incident now incident_id s =
     execute s (\<lambda>s.
       ((), s\<lparr>incidents :=
          update_where_id incident_id
            (\<lambda>i. i\<lparr>inc_status := ''resolved'', resolved_at := Some now\<rparr>)
            (incidents s)\<rparr>))"

text \<open>
  \<^verbatim>\<open>mark_alert_sent\<close> interpolates the channel into the statement:
  \<^verbatim>\<open>column = f"{channel}_alerted"\<close>, then \<^verbatim>\<open>UPDATE incidents SET {column} = 1 WHERE id = ?\<close>.
  The statement is modelled for the three channels that \<^verbatim>\<open>handle_result\<close> lets through,
  for which the column is \<^verbatim>\<open>slack_alerted\<close>, \<^verbatim>\<open>email_alerted\<close> or \<^verbatim>\<open>sms_alerted\<close>. For any
  other text the model does not follow SQLite (which compares column names without regard
  to case, and for which the interpolated text may form another valid statement): the
  call is represented by the driver's error for a name that is no column, and nothing
  below relies on that branch.
\<close>

definition alert_column :: "string \<Rightarrow> string" where
  "alert_column channel = channel @ ''_alerted''"

definition mark_alert_sent :: "nat \<Rightarrow> string \<Rightarrow> store \<Rightarrow> (exn + unit) \<times> store" where
  "mark_alert_sent incident_id channel s =
     (let column = alert_column channel in
      if column = ''slack_alerted'' then
        execute s (\<lambda>s. ((), s\<lparr>incidents :=
          update_where_id incident_id (\<lambda>i. i\<lparr>slack_alerted := 1\<rparr>) (incidents s)\<rparr>))
      else if column = ''email_alerted'' then
        execute s (\<lambda>s. ((), s\<lparr>incidents :=
          update_where_id incident_id (\<lambda>i. i\<lparr>email_alerted := 1\<rparr>) (incidents s)\<rparr>))
      else if column = ''sms_alerted'' then
        execute s (\<lambda>s. ((), s\<lparr>incidents :=
          update_where_id incident_id (\<lambda>i. i\<lparr>sms_alerted := 1\<rparr>) (incidents s)\<rparr>))
      else (Inl (SqliteError (''no such column: '' @ column)), s))"

section \<open>Notification dispatcher (class Alerter)\<close>

text \<open>
  The \<^verbatim>\<open>alerts\<close> section of the configuration file. \<open>None\<close> is a key that the file does
  not give; the code reads every key with \<^verbatim>\<open>.get\<close> and a default.
\<close>

record alert_config =
  slack_enabled :: "bool option"
  slack_channel :: "string option"
  email_enabled :: "bool option"
  email_escalate_after :: "int option"
  email_recipients :: "string list option"
  sms_enabled :: "bool option"
  sms_escalate_after :: "int option"
  sms_method :: "string option"
  sms_recipients :: "string list option"

text \<open>
  The texts that the alerter formats. Their rendering (f-strings with the current time
  and \<^verbatim>\<open>:.0f\<close> formatting) is not modelled; a message is represented by the function that
  builds it and the values it interpolates: \<^verbatim>\<open>_format_failure_message(result, failure_count)\<close>,
  the recovery message with its \<^verbatim>\<open>downtime\<close>, the brief SMS message, and \<^verbatim>\<open>message[:160]\<close>.
\<close>

datatype message =
    FailureMessage check_result int
  | RecoveryMessage check_result int
  | CriticalMessage check_result int
  | First160 message

datatype title = AlertDown string | Escalation string int | Recovered string | WatchdogAlert

text \<open>
  What is handed to a transport: the \<^verbatim>\<open>clawdbot\<close> subprocess (Slack channel, title,
  message), an SMTP session (host, port, sender, subject, body, recipients), a Twilio
  \<^verbatim>\<open>messages.create\<close> (sender number, body, recipient). A transport returns normally
  (\<open>Rejected\<close> is the subprocess returning a non-zero code) or raises.
\<close>

datatype delivery =
    ClawdbotMessage string title message
  | SmtpMessage string int "string option" title message "string list"
  | TwilioMessage string message string

datatype outcome = Delivered | Rejected string | Raised string

text \<open>
  The trace of one alerter call: the calls of the three senders with their arguments,
  and the deliveries attempted with their outcomes.
\<close>

datatype event =
    CallSlack title message string
  | CallEmail title message "string list"
  | CallSms message
  | Attempt delivery outcome

text \<open>The value of \<^verbatim>\<open>os.getenv('SMTP_PORT')\<close>, classified by what \<^verbatim>\<open>int()\<close> makes of it.\<close>

datatype port_var = PortUnset | PortInt int | PortInvalid string

text \<open>
  What the alerter reads from outside at the time of a call: the clock, the environment
  variables, whether the \<^verbatim>\<open>twilio\<close> package can be imported, and the outcome of each
  delivery.
\<close>

record world =
  clock :: nat
  smtp_host :: "string option"
  smtp_port :: port_var
  smtp_user :: "string option"
  smtp_password :: "string option"
  email_from :: "string option"
  sms_email_gateway :: "string option"
  twilio_installed :: bool
  twilio_account_sid :: "string option"
  twilio_auth_token :: "string option"
  twilio_from_number :: "string option"
  transport :: "delivery \<Rightarrow> outcome"

text \<open>Python truth of an environment variable: set and not empty.\<close>

definition truthy :: "string option \<Rightarrow> bool" where
  "truthy v = (case v of None \<Rightarrow> False | Some x \<Rightarrow> x \<noteq> [])"

definition get_default :: "'a option \<Rightarrow> 'a \<Rightarrow> 'a" where
  "get_default v d = (case v of None \<Rightarrow> d | Some x \<Rightarrow> x)"

definition send_slack :: "alert_config \<Rightarrow> world \<Rightarrow> title \<Rightarrow> message \<Rightarrow> string \<Rightarrow> exn option \<times> event list" where
  "send_slack cfg w title message color =
     (if \<not> get_default (slack_enabled cfg) True then (None, [CallSlack title message color])
      else
        let channel = get_default (slack_channel cfg) ''#alerts'';
            d = ClawdbotMessage channel title message in
        (case transport w d of
           Raised e \<Rightarrow> (None, [CallSlack title message color, Attempt d (Raised e)])
         | out \<Rightarrow> (None, [CallSlack title message color, Attempt d out])))"

text \<open>
  The part of \<^verbatim>\<open>_send_email\<close> after the port is read: skipped unless host, user and
  password are set; the whole SMTP session is inside \<^verbatim>\<open>try\<close>, with \<^verbatim>\<open>except Exception\<close>
  printing the error.
\<close>

definition smtp_deliver :: "world \<Rightarrow> int \<Rightarrow> title \<Rightarrow> message \<Rightarrow> string list \<Rightarrow> exn option \<times> event list" where
  "smtp_deliver w port subject body recipients =
     (if \<not> (truthy (smtp_host w) \<and> truthy (smtp_user w) \<and> truthy (smtp_password w))
      then (None, [CallEmail subject body recipients])
      else
        let from_email = (case email_from w of None \<Rightarrow> smtp_user w | Some f \<Rightarrow> Some f);
            d = SmtpMessage (get_default (smtp_host w) []) port from_email subject body recipients in
        (case transport w d of
           Raised e \<Rightarrow> (None, [CallEmail subject body recipients, Attempt d (Raised e)])
         | out \<Rightarrow> (None, [CallEmail subject body recipients, Attempt d out])))"

text \<open>
  \<^verbatim>\<open>_send_email\<close>: \<^verbatim>\<open>int(os.getenv('SMTP_PORT', 587))\<close> is evaluated before the
  \<^verbatim>\<open>try\<close> block, so its \<^verbatim>\<open>ValueError\<close> leaves the function.
\<close>

definition send_email :: "world \<Rightarrow> title \<Rightarrow> message \<Rightarrow> string list \<Rightarrow> exn option \<times> event list" where
  "send_email w subject body recipients =
     (case smtp_port w of
        PortInvalid v \<Rightarrow>
          (Some (ValueError (''invalid literal for int() with base 10: '' @ [CHR 0x27] @ v @ [CHR 0x27])),
           [CallEmail subject body recipients])
      | PortUnset \<Rightarrow> smtp_deliver w 587 subject body recipients
      | PortInt p \<Rightarrow> smtp_deliver w p subject body recipients)"

text \<open>
  The loop of \<^verbatim>\<open>_send_sms_twilio\<close> over the recipients: an exception of
  \<^verbatim>\<open>messages.create\<close> ends the loop (it is caught around the whole function body).
\<close>

fun twilio_loop :: "world \<Rightarrow> string \<Rightarrow> message \<Rightarrow> string list \<Rightarrow> event list" where
  "twilio_loop w from_number message [] = []"
| "twilio_loop w from_number message (recipient # rest) =
     (let d = TwilioMessage from_number message recipient in
      case transport w d of
        Raised e \<Rightarrow> [Attempt d (Raised e)]
      | out \<Rightarrow> Attempt d out # twilio_loop w from_number message rest)"

definition send_sms_twilio :: "alert_config \<Rightarrow> world \<Rightarrow> message \<Rightarrow> exn option \<times> event list" where
  "send_sms_twilio cfg w message =
     (if \<not> twilio_installed w then (None, [])
      else if \<not> (truthy (twilio_account_sid w) \<and> truthy (twilio_auth_token w)
                  \<and> truthy (twilio_from_number w))
      then (None, [])
      else (None, twilio_loop w (get_default (twilio_from_number w) []) message
                    (get_default (sms_recipients cfg) [])))"

definition send_sms_email_gateway :: "world \<Rightarrow> message \<Rightarrow> exn option \<times> event list" where
  "send_sms_email_gateway w message =
     (case sms_email_gateway w of
        None \<Rightarrow> (None, [])
      | Some gateway \<Rightarrow>
          if gateway = [] then (None, [])
          else send_email w WatchdogAlert (First160 message) [gateway])"

definition send_sms :: "alert_config \<Rightarrow> world \<Rightarrow> message \<Rightarrow> exn option \<times> event list" where
  "send_sms cfg w message =
     (case (if get_default (sms_method cfg) ''email_gateway'' = ''twilio''
            then send_sms_twilio cfg w message
            else send_sms_email_gateway w message) of
        (x, ev) \<Rightarrow> (x, CallSms message # ev))"

definition send_initial_alert :: "alert_config \<Rightarrow> world \<Rightarrow> check_result \<Rightarrow> exn option \<times> event list" where
  "send_initial_alert cfg w result =
     (let message = FailureMessage result 1 in
      if ''slack'' \<in> set (get_default (r_alert_channels result) [])
      then send_slack cfg w (AlertDown (r_name result)) message ''danger''
      else (None, []))"

definition send_escalation_alert ::
  "alert_config \<Rightarrow> world \<Rightarrow> check_result \<Rightarrow> incident \<Rightarrow> int \<Rightarrow> exn option \<times> event list" where
  "send_escalation_alert cfg w result incident failure_count' =
     (let email_threshold = get_default (email_escalate_after cfg) 3 in
      case (if failure_count' = email_threshold
               \<and> ''email'' \<in> set (get_default (r_alert_channels result) [])
               \<and> get_default (email_enabled cfg) True
            then send_email w (Escalation (r_name result) failure_count')
                   (FailureMessage result failure_count')
                   (get_default (email_recipients cfg) [])
            else (None, [])) of
        (Some e, ev) \<Rightarrow> (Some e, ev)
      | (None, ev) \<Rightarrow>
          (let sms_threshold = get_default (sms_escalate_after cfg) 5 in
           case (if failure_count' = sms_threshold
                    \<and> ''sms'' \<in> set (get_default (r_alert_channels result) [])
                    \<and> get_default (sms_enabled cfg) False
                 then send_sms cfg w (CriticalMessage result failure_count')
                 else (None, [])) of
             (x, ev') \<Rightarrow> (x, ev @ ev')))"

definition send_recovery_alert ::
  "alert_config \<Rightarrow> world \<Rightarrow> check_result \<Rightarrow> incident \<Rightarrow> exn option \<times> event list" where
  "send_recovery_alert cfg w result incident =
     (let downtime = failure_count incident;
          message = RecoveryMessage result downtime in
      if ''slack'' \<in> set (get_default (r_alert_channels result) [])
      then send_slack cfg w (Recovered (r_name result)) message ''good''
      else (None, []))"

section \<open>Incident state machine (Watchdog.handle_result)\<close>

text \<open>
  The loop at the end of \<^verbatim>\<open>handle_result\<close>:
  \<^verbatim>\<open>for channel in result.get('alert_channels', ['slack']): if channel in ['slack', 'email', 'sms']: mark_alert_sent(incident_id, channel)\<close>.
\<close>

fun mark_channels :: "nat \<Rightarrow> string list \<Rightarrow> store \<Rightarrow> exn option \<times> store" where
  "mark_channels incident_id [] s = (None, s)"
| "mark_channels incident_id (channel # rest) s =
     (if channel \<in> set [''slack'', ''email'', ''sms''] then
        (case mark_alert_sent incident_id channel s of
           (Inl e, s') \<Rightarrow> (Some e, s')
         | (Inr _, s') \<Rightarrow> mark_channels incident_id rest s')
      else mark_channels incident_id rest s)"

text \<open>
  \<^verbatim>\<open>handle_result\<close> returns the exception that left it (if any), the store as committed
  when it returned or raised, and the trace of the alerter.
\<close>

definition handle_result ::
  "alert_config \<Rightarrow> world \<Rightarrow> check_result \<Rightarrow> store \<Rightarrow> exn option \<times> store \<times> event list" where
  "handle_result cfg w result s =
     (let target_id = r_target_id result;
          status = r_status result;
          check_id = r_check_id result in
      case get_open_incident target_id s of
        (Inl e, s1) \<Rightarrow> (Some e, s1, [])
      | (Inr incident, s1) \<Rightarrow>
          if status = ''success'' then
            (case incident of
               Some inc \<Rightarrow>
                 (case resolve_incident (clock w) (inc_id inc) s1 of
                    (Inl e, s2) \<Rightarrow> (Some e, s2, [])
                  | (Inr _, s2) \<Rightarrow>
                      (case send_recovery_alert cfg w result inc of (x, ev) \<Rightarrow> (x, s2, ev)))
             | None \<Rightarrow> (None, s1, []))
          else
            (case incident of
               Some inc \<Rightarrow>
                 (case update_incident (inc_id inc) check_id True s1 of
                    (Inl e, s2) \<Rightarrow> (Some e, s2, [])
                  | (Inr _, s2) \<Rightarrow>
                      (let failure_count' = failure_count inc + 1 in
                       case send_escalation_alert cfg w result inc failure_count' of
                         (x, ev) \<Rightarrow> (x, s2, ev)))
             | None \<Rightarrow>
                 (case create_incident (clock w) target_id check_id s1 of
                    (Inl e, s2) \<Rightarrow> (Some e, s2, [])
                  | (Inr incident_id, s2) \<Rightarrow>
                      (case send_initial_alert cfg w result of
                         (Some e, ev) \<Rightarrow> (Some e, s2, ev)
                       | (None, ev) \<Rightarrow>
                           (case mark_channels incident_id
                                   (get_default (r_alert_channels result) [''slack'']) s2 of
                              (x, s3) \<Rightarrow> (x, s3, ev))))))"

definition raised :: "exn option \<times> store \<times> event list \<Rightarrow> exn option" where
  "raised out = fst out"

definition store_of :: "exn option \<times> store \<times> event list \<Rightarrow> store" where
  "store_of out = fst (snd out)"

definition events_of :: "exn option \<times> store \<times> event list \<Rightarrow> event list" where
  "events_of out = snd (snd out)"

text \<open>
  A sequence of calls of \<^verbatim>\<open>handle_result\<close> on the same store, each in its own world. The
  store is durable: a call that raises leaves what it had committed, and the next call
  (in the same run or in a later invocation) starts from there.
\<close>

fun handle_results :: "alert_config \<Rightarrow> (world \<times> check_result) list \<Rightarrow> store \<Rightarrow> store" where
  "handle_results cfg [] s = s"
| "handle_results cfg ((w, result) # rest) s =
     handle_results cfg rest (store_of (handle_result cfg w result s))"

fun handle_trace :: "alert_config \<Rightarrow> (world \<times> check_result) list \<Rightarrow> store \<Rightarrow> event list list" where
  "handle_trace cfg [] s = []"
| "handle_trace cfg ((w, result) # rest) s =
     events_of (handle_result cfg w result s)
       # handle_trace cfg rest (store_of (handle_result cfg w result s))"

section \<open>Result classifier (Watchdog.check_target) and the run over all targets\<close>

text \<open>Decimal rendering of an integer, as an f-string does it.\<close>

fun str_nat :: "nat \<Rightarrow> string" where
  "str_nat n =
     (if n < 10 then [''0123456789'' ! n]
      else str_nat (n div 10) @ [''0123456789'' ! (n mod 10)])"

declare str_nat.simps [simp del]

definition str_int :: "int \<Rightarrow> string" where
  "str_int i = (if i < 0 then CHR ''-'' # str_nat (nat (- i)) else str_nat (nat i))"

text \<open>Python's \<^verbatim>\<open>needle in haystack\<close> on strings.\<close>

fun substring_in :: "string \<Rightarrow> string \<Rightarrow> bool" where
  "substring_in needle [] = (needle = [])"
| "substring_in needle (c # cs) =
     (take (length needle) (c # cs) = needle \<or> substring_in needle cs)"

text \<open>
  What \<^verbatim>\<open>requests.request\<close> does: it returns a response (status code and body; the
  third component is the time measured around the call, in milliseconds), raises
  \<^verbatim>\<open>requests.Timeout\<close>, or raises another exception \<open>e\<close>, given by \<^verbatim>\<open>str(e)\<close>.
\<close>

datatype probe_outcome = Response int string real | TimedOut | Failed string

text \<open>The handler \<^verbatim>\<open>except requests.Timeout\<close>; an error of its \<^verbatim>\<open>record_check\<close> leaves the function.\<close>

definition on_timeout :: "target \<Rightarrow> store \<Rightarrow> (exn + check_result) \<times> store" where
  "on_timeout t s =
     (let msg = ''Timeout after '' @ str_int (t_timeout t) @ ''s'' in
      case record_check (t_id t) ''timeout'' None None (Some msg) s of
        (Inl e, s') \<Rightarrow> (Inl e, s')
      | (Inr check_id, s') \<Rightarrow>
          (Inr \<lparr>r_target_id = t_id t, r_name = t_name t, r_status = ''timeout'',
                r_status_code = None, r_response_time = None, r_error_message = Some msg,
                r_check_id = check_id, r_alert_channels = Some (t_alert_channels t)\<rparr>, s'))"

text \<open>The handler \<^verbatim>\<open>except Exception as e\<close>, with \<open>msg\<close> for \<^verbatim>\<open>str(e)\<close>.\<close>

definition on_exception :: "target \<Rightarrow> string \<Rightarrow> store \<Rightarrow> (exn + check_result) \<times> store" where
  "on_exception t msg s =
     (case record_check (t_id t) ''error'' None None (Some msg) s of
        (Inl e, s') \<Rightarrow> (Inl e, s')
      | (Inr check_id, s') \<Rightarrow>
          (Inr \<lparr>r_target_id = t_id t, r_name = t_name t, r_status = ''error'',
                r_status_code = None, r_response_time = None, r_error_message = Some msg,
                r_check_id = check_id, r_alert_channels = Some (t_alert_channels t)\<rparr>, s'))"

text \<open>
  \<^verbatim>\<open>check_target\<close>. The \<^verbatim>\<open>record_check\<close> of a completed probe is inside the \<^verbatim>\<open>try\<close>
  block, so an error of the store there is caught by \<^verbatim>\<open>except Exception\<close>.
\<close>

definition check_target :: "target \<Rightarrow> probe_outcome \<Rightarrow> store \<Rightarrow> (exn + check_result) \<times> store" where
  "check_target t probe s =
     (case probe of
        Response status_code body response_time \<Rightarrow>
          (let (status, error_msg) =
                 (if status_code \<noteq> t_expected_status t then
                    (''failure'',
                     Some (''Expected '' @ str_int (t_expected_status t) @ '', got ''
                           @ str_int status_code))
                  else if truthy (t_contains t)
                          \<and> \<not> substring_in (get_default (t_contains t) []) body then
                    (''failure'',
                     Some (''Expected content '' @ [CHR 0x27] @ get_default (t_contains t) []
                           @ [CHR 0x27] @ '' not found''))
                  else (''success'', None)) in
           case record_check (t_id t) status (Some status_code) (Some response_time) error_msg s of
             (Inl e, s') \<Rightarrow> on_exception t (str_exn e) s'
           | (Inr check_id, s') \<Rightarrow>
               (Inr \<lparr>r_target_id = t_id t, r_name = t_name t, r_status = status,
                     r_status_code = Some status_code, r_response_time = Some response_time,
                     r_error_message = error_msg, r_check_id = check_id,
                     r_alert_channels = Some (t_alert_channels t)\<rparr>, s'))
      | TimedOut \<Rightarrow> on_timeout t s
      | Failed msg \<Rightarrow> on_exception t msg s)"

text \<open>
  The loop of \<^verbatim>\<open>run_checks\<close>: \<^verbatim>\<open>for target in targets: result = self.check_target(target); self.handle_result(result)\<close>.
  \<open>env\<close> gives, for each target, what its probe does and the world of its
  \<^verbatim>\<open>handle_result\<close>. The loop has no exception handler: an exception of either call
  leaves it.
\<close>

fun run_loop ::
  "alert_config \<Rightarrow> (target \<Rightarrow> probe_outcome \<times> world) \<Rightarrow> target list \<Rightarrow> store
     \<Rightarrow> exn option \<times> store \<times> event list" where
  "run_loop cfg env [] s = (None, s, [])"
| "run_loop cfg env (t # ts) s =
     (case check_target t (fst (env t)) s of
        (Inl e, s1) \<Rightarrow> (Some e, s1, [])
      | (Inr result, s1) \<Rightarrow>
          (case handle_result cfg (snd (env t)) result s1 of
             (Some e, s2, ev) \<Rightarrow> (Some e, s2, ev)
           | (None, s2, ev) \<Rightarrow>
               (case run_loop cfg env ts s2 of (x, s3, ev') \<Rightarrow> (x, s3, ev @ ev'))))"

text \<open>
  \<^verbatim>\<open>run_checks\<close>: \<open>reachable\<close> says whether \<^verbatim>\<open>self.db.connect()\<close> can open the store; if
  not, its exception leaves \<^verbatim>\<open>run_checks\<close> before any target is read.
\<close>

definition run_checks ::
  "alert_config \<Rightarrow> (target \<Rightarrow> probe_outcome \<times> world) \<Rightarrow> bool \<Rightarrow> store
     \<Rightarrow> exn option \<times> store \<times> event list" where
  "run_checks cfg env reachable s =
     (if \<not> reachable then (Some (SqliteError ''unable to open database file''), s, [])
      else
        case get_active_targets s of
          (Inl e, s1) \<Rightarrow> (Some e, s1, [])
        | (Inr active, s1) \<Rightarrow>
            if active = [] then (None, s1, []) else run_loop cfg env active s1)"

section \<open>Predicates and row updates used in the statements\<close>

text \<open>
  At most one open incident per target: the targets of the open rows are pairwise
  different.
\<close>

definition one_open :: "incident list \<Rightarrow> bool" where
  "one_open rows = distinct (map inc_target_id (filter (\<lambda>i. inc_status i = ''open'') rows))"

text \<open>The row updates of \<^verbatim>\<open>resolve_incident\<close> and of \<^verbatim>\<open>update_incident\<close> with \<^verbatim>\<open>increment_count=True\<close>.\<close>

definition resolved_row :: "nat \<Rightarrow> incident \<Rightarrow> incident" where
  "resolved_row now i = i\<lparr>inc_status := ''resolved'', resolved_at := Some now\<rparr>"

definition continued_row :: "nat \<Rightarrow> incident \<Rightarrow> incident" where
  "continued_row check_id i = i\<lparr>last_check_id := check_id, failure_count := failure_count i + 1\<rparr>"

text \<open>The three statements that \<^verbatim>\<open>mark_alert_sent\<close> can execute, as row updates.\<close>

definition mark_setters :: "(incident \<Rightarrow> incident) set" where
  "mark_setters = {\<lambda>i. i\<lparr>slack_alerted := 1\<rparr>, \<lambda>i. i\<lparr>email_alerted := 1\<rparr>, \<lambda>i. i\<lparr>sms_alerted := 1\<rparr>}"

text \<open>A row update that changes nothing but the three alert columns.\<close>

definition flags_only :: "(incident \<Rightarrow> incident) \<Rightarrow> bool" where
  "flags_only g = (\<forall>i. inc_id (g i) = inc_id i \<and> inc_target_id (g i) = inc_target_id i
      \<and> inc_status (g i) = inc_status i \<and> started_at (g i) = started_at i
      \<and> resolved_at (g i) = resolved_at i \<and> failure_count (g i) = failure_count i
      \<and> last_check_id (g i) = last_check_id i)"

text \<open>The effect on a row of marking every channel of a list that names an alert column.\<close>

definition mark_row :: "string list \<Rightarrow> incident \<Rightarrow> incident" where
  "mark_row chans i =
     i\<lparr>slack_alerted := (if ''slack'' \<in> set chans then 1 else slack_alerted i),
       email_alerted := (if ''email'' \<in> set chans then 1 else email_alerted i),
       sms_alerted := (if ''sms'' \<in> set chans then 1 else sms_alerted i)\<rparr>"

subsection \<open>Concrete inputs\<close>

definition empty_store :: store where
  "empty_store = \<lparr>targets = [], checks = [], incidents = [], faults = []\<rparr>"

definition quiet_world :: world where
  "quiet_world = \<lparr>clock = 7, smtp_host = None, smtp_port = PortUnset, smtp_user = None,
     smtp_password = None, email_from = None, sms_email_gateway = None, twilio_installed = False,
     twilio_account_sid = None, twilio_auth_token = None, twilio_from_number = None,
     transport = (\<lambda>d. Delivered)\<rparr>"

definition default_config :: alert_config where
  "default_config = \<lparr>slack_enabled = None, slack_channel = None, email_enabled = None,
     email_escalate_after = None, email_recipients = None, sms_enabled = None,
     sms_escalate_after = None, sms_method = None, sms_recipients = None\<rparr>"

definition failing_result :: check_result where
  "failing_result = \<lparr>r_target_id = 1, r_name = ''api'', r_status = ''failure'',
     r_status_code = Some 500, r_response_time = Some 12,
     r_error_message = Some ''Expected 200, got 500'', r_check_id = 1,
     r_alert_channels = Some [''slack'', ''email'', ''sms'']\<rparr>"

definition passing_result :: check_result where
  "passing_result = \<lparr>r_target_id = 1, r_name = ''api'', r_status = ''success'',
     r_status_code = Some 200, r_response_time = Some 12,
     r_error_message = None, r_check_id = 2,
     r_alert_channels = Some [''slack'', ''email'', ''sms'']\<rparr>"

text \<open>The failure count of the open incident of a target, 0 when there is none.\<close>

definition open_count :: "nat \<Rightarrow> incident list \<Rightarrow> int" where
  "open_count tid rows = (case open_incident tid rows of None \<Rightarrow> 0 | Some i \<Rightarrow> failure_count i)"

text \<open>A store with one open incident that has seen two failures.\<close>

definition open_row :: incident where
  "open_row = \<lparr>inc_id = 1, inc_target_id = 1, inc_status = ''open'', started_at = 5,
                resolved_at = None, failure_count = 2, last_check_id = 1,
                slack_alerted = 1, email_alerted = 1, sms_alerted = 0\<rparr>"

definition open_store :: store where
  "open_store = \<lparr>targets = [], checks = [], incidents = [open_row], faults = []\<rparr>"

text \<open>
  What a trace shows of the three kinds of alert: the call of \<^verbatim>\<open>_send_email\<close> with an
  escalation subject, the call of \<^verbatim>\<open>_send_sms\<close> with the critical message, the call of
  \<^verbatim>\<open>_send_slack\<close> with the title of the initial alert.
\<close>

definition is_email_escalation :: "event \<Rightarrow> bool" where
  "is_email_escalation e = (case e of CallEmail (Escalation n c) b rs \<Rightarrow> True | _ \<Rightarrow> False)"

definition is_sms_escalation :: "event \<Rightarrow> bool" where
  "is_sms_escalation e = (case e of CallSms (CriticalMessage r n) \<Rightarrow> True | _ \<Rightarrow> False)"

definition is_initial_alert :: "event \<Rightarrow> bool" where
  "is_initial_alert e = (case e of CallSlack (AlertDown n) m c \<Rightarrow> True | _ \<Rightarrow> False)"

text \<open>\<^verbatim>\<open>SMTP_PORT\<close> is set to something that \<^verbatim>\<open>int()\<close> rejects.\<close>

definition port_invalid :: "world \<Rightarrow> bool" where
  "port_invalid w = (case smtp_port w of PortInvalid v \<Rightarrow> True | _ \<Rightarrow> False)"

text \<open>The two conditions of \<^verbatim>\<open>send_escalation_alert\<close>, for a failure count \<open>n\<close>.\<close>

definition email_due :: "alert_config \<Rightarrow> check_result \<Rightarrow> int \<Rightarrow> bool" where
  "email_due cfg r n = (n = get_default (email_escalate_after cfg) 3
      \<and> ''email'' \<in> set (get_default (r_alert_channels r) [])
      \<and> get_default (email_enabled cfg) True)"

definition sms_due :: "alert_config \<Rightarrow> check_result \<Rightarrow> int \<Rightarrow> bool" where
  "sms_due cfg r n = (n = get_default (sms_escalate_after cfg) 5
      \<and> ''sms'' \<in> set (get_default (r_alert_channels r) [])
      \<and> get_default (sms_enabled cfg) False)"

text \<open>The alert settings of the test suite, and a variant that escalates by email after one failure.\<close>

definition scenario_config :: alert_config where
  "scenario_config = \<lparr>slack_enabled = Some True, slack_channel = Some ''#test-alerts'',
     email_enabled = Some True, email_escalate_after = Some 3,
     email_recipients = Some [''test@example.com''], sms_enabled = Some True,
     sms_escalate_after = Some 5, sms_method = Some ''email_gateway'',
     sms_recipients = Some [''+15551234567'']\<rparr>"

definition threshold_one_config :: alert_config where
  "threshold_one_config = scenario_config\<lparr>email_escalate_after := Some 1\<rparr>"

definition email_only_result :: check_result where
  "email_only_result = failing_result\<lparr>r_alert_channels := Some [''email'']\<rparr>"

text \<open>The target of the spec's scenario: expected status 200, required content \<^verbatim>\<open>healthy\<close>, timeout 10.\<close>

definition health_target :: target where
  "health_target = \<lparr>t_id = 1, t_name = ''api'', t_url = ''https://example.com/api/health'',
     t_method = ''GET'', t_expected_status = 200, t_timeout = 10, t_contains = Some ''healthy'',
     t_enabled = True, t_alert_channels = [''slack'', ''email'']\<rparr>"

text \<open>A table that breaks the invariant: two open incidents of target 1, started at 10 and at 20.\<close>

definition first_open_row :: incident where
  "first_open_row = \<lparr>inc_id = 1, inc_target_id = 1, inc_status = ''open'', started_at = 10,
     resolved_at = None, failure_count = 4, last_check_id = 4,
     slack_alerted = 1, email_alerted = 0, sms_alerted = 0\<rparr>"

definition second_open_row :: incident where
  "second_open_row = \<lparr>inc_id = 2, inc_target_id = 1, inc_status = ''open'', started_at = 20,
     resolved_at = None, failure_count = 1, last_check_id = 5,
     slack_alerted = 1, email_alerted = 0, sms_alerted = 0\<rparr>"

definition two_open_store :: store where
  "two_open_store = \<lparr>targets = [], checks = [],
     incidents = [first_open_row, second_open_row], faults = []\<rparr>"

text \<open>
  Two enabled targets that both answer 500, and a store in which the third statement of
  the run (the \<^verbatim>\<open>get_open_incident\<close> of the first target) fails once.
\<close>

definition second_target :: target where
  "second_target = \<lparr>t_id = 2, t_name = ''slow'', t_url = ''https://slow.example.com'',
     t_method = ''GET'', t_expected_status = 200, t_timeout = 1, t_contains = None,
     t_enabled = True, t_alert_channels = [''slack'']\<rparr>"

definition all_down :: "target \<Rightarrow> probe_outcome \<times> world" where
  "all_down t = (Response 500 ''Internal Server Error'' 12, quiet_world)"

definition locked_store :: store where
  "locked_store = \<lparr>targets = [health_target, second_target], checks = [], incidents = [],
     faults = [None, None, Some ''database is locked'']\<rparr>"

text \<open>The row update of \<^verbatim>\<open>UPDATE incidents SET {column} = 1\<close> for a column of the table.\<close>

definition column_setter :: "string \<Rightarrow> incident \<Rightarrow> incident" where
  "column_setter column i =
     (if column = ''slack_alerted'' then i\<lparr>slack_alerted := 1\<rparr>
      else if column = ''email_alerted'' then i\<lparr>email_alerted := 1\<rparr>
      else if column = ''sms_alerted'' then i\<lparr>sms_alerted := 1\<rparr>
      else i)"

text \<open>An event of the Slack sender: its call, or its \<^verbatim>\<open>clawdbot\<close> delivery.\<close>

definition via_slack :: "event \<Rightarrow> bool" where
  "via_slack e = (case e of CallSlack t m c \<Rightarrow> True
                  | Attempt (ClawdbotMessage ch t m) out \<Rightarrow> True
                  | _ \<Rightarrow> False)"

text \<open>
  A world with SMTP configured in which every delivery raises, and the same world with
  \<^verbatim>\<open>SMTP_PORT=abc\<close>.
\<close>

definition unreachable_world :: world where
  "unreachable_world = \<lparr>clock = 9, smtp_host = Some ''smtp.test.com'', smtp_port = PortInt 587,
     smtp_user = Some ''test@test.com'', smtp_password = Some ''password'', email_from = None,
     sms_email_gateway = None, twilio_installed = False, twilio_account_sid = None,
     twilio_auth_token = None, twilio_from_number = None,
     transport = (\<lambda>d. Raised ''connection refused'')\<rparr>"

definition bad_port_world :: world where
  "bad_port_world = unreachable_world\<lparr>smtp_port := PortInvalid ''abc''\<rparr>"

text \<open>The exception of \<^verbatim>\<open>int(os.getenv('SMTP_PORT', 587))\<close>, if any.\<close>

definition port_error :: "world \<Rightarrow> exn option" where
  "port_error w = (case smtp_port w of
       PortInvalid v \<Rightarrow> Some (ValueError (''invalid literal for int() with base 10: '' @ [CHR 0x27] @ v @ [CHR 0x27]))
     | _ \<Rightarrow> None)"

text \<open>An empty store whose next statement fails once; every later one succeeds.\<close>

definition flaky_store :: store where
  "flaky_store = \<lparr>targets = [], checks = [], incidents = [],
     faults = [Some ''database is locked'']\<rparr>"

section \<open>Lemmas about the store operations\<close>

lemma store_faults_nil: "faults s = [] \<Longrightarrow> s\<lparr>faults := []\<rparr> = s"
  by (cases s) simp

lemma execute_no_fault: "faults s = [] \<Longrightarrow> execute s f = (case f s of (a, s') \<Rightarrow> (Inr a, s'))"
  by (simp add: execute_def store_faults_nil)

lemma execute_cases:
  "(\<exists>m rest. faults s = Some m # rest \<and> execute s f = (Inl (SqliteError m), s\<lparr>faults := rest\<rparr>))
   \<or> execute s f = (Inr (fst (f (s\<lparr>faults := tl (faults s)\<rparr>))), snd (f (s\<lparr>faults := tl (faults s)\<rparr>)))"
  by (simp add: execute_def split: list.splits option.splits prod.splits)

lemma fold_max_ge: "(a::nat) \<le> fold max ids a \<and> (\<forall>x\<in>set ids. x \<le> fold max ids a)"
proof (induction ids arbitrary: a)
  case Nil
  then show ?case by simp
next
  case (Cons y ys)
  have "max y a \<le> fold max ys (max y a)" "\<forall>x\<in>set ys. x \<le> fold max ys (max y a)"
    using Cons.IH [of "max y a"] by auto
  then show ?case by auto
qed

lemma next_rowid_fresh: "next_rowid ids \<notin> set ids"
  using fold_max_ge [of 0 ids] by (auto simp: next_rowid_def)

lemma next_rowid_fresh_row: "x \<in> set rows \<Longrightarrow> inc_id x \<noteq> next_rowid (map inc_id rows)"
  using next_rowid_fresh [of "map inc_id rows"] by force

lemma pick_latest_None: "pick_latest rows = None \<longleftrightarrow> rows = []"
  by (cases rows) simp_all

lemma fold_later_row_mem: "fold later_row rows i \<in> set (i # rows)"
  by (induction rows arbitrary: i) (auto simp: later_row_def)

lemma pick_latest_mem: "pick_latest rows = Some i \<Longrightarrow> i \<in> set rows"
  using fold_later_row_mem by (cases rows) auto

lemma open_incident_None: "open_incident tid rows = None \<longleftrightarrow> open_rows tid rows = []"
  by (simp add: open_incident_def pick_latest_None)

lemma open_incident_Some:
  "open_incident tid rows = Some i \<Longrightarrow> i \<in> set rows \<and> inc_target_id i = tid \<and> inc_status i = ''open''"
  using pick_latest_mem [of "open_rows tid rows" i] by (auto simp: open_incident_def open_rows_def)


lemma continued_row_fun:
  "continued_row cid = (\<lambda>i. i\<lparr>last_check_id := cid, failure_count := failure_count i + 1\<rparr>)"
  by (rule ext) (simp add: continued_row_def)

lemma resolved_row_fun:
  "resolved_row now = (\<lambda>i. i\<lparr>inc_status := ''resolved'', resolved_at := Some now\<rparr>)"
  by (rule ext) (simp add: resolved_row_def)

lemma get_open_incident_out:
  "get_open_incident tid s = (x, s') \<Longrightarrow>
     incidents s' = incidents s \<and> (x = Inr (open_incident tid (incidents s)) \<or> (\<exists>e. x = Inl e))"
  by (auto simp: get_open_incident_def execute_def split: list.splits option.splits)

lemma resolve_incident_out:
  "resolve_incident now iid s = (x, s') \<Longrightarrow>
     (\<exists>e. x = Inl e \<and> incidents s' = incidents s)
     \<or> (x = Inr () \<and> incidents s' = update_where_id iid (resolved_row now) (incidents s))"
  by (auto simp: resolve_incident_def execute_def resolved_row_fun split: list.splits option.splits)

lemma update_incident_out:
  "update_incident iid cid True s = (x, s') \<Longrightarrow>
     (\<exists>e. x = Inl e \<and> incidents s' = incidents s)
     \<or> (x = Inr () \<and> incidents s' = update_where_id iid (continued_row cid) (incidents s))"
  by (auto simp: update_incident_def execute_def continued_row_fun split: list.splits option.splits)

lemma create_incident_out:
  "create_incident now tid cid s = (x, s') \<Longrightarrow>
     (\<exists>e. x = Inl e \<and> incidents s' = incidents s)
     \<or> (x = Inr (next_rowid (map inc_id (incidents s)))
        \<and> incidents s' = incidents s @ [new_incident now (next_rowid (map inc_id (incidents s))) tid cid])"
  by (auto simp: create_incident_def execute_def Let_def split: list.splits option.splits)

lemma mark_alert_sent_out:
  "mark_alert_sent iid c s = (x, s') \<Longrightarrow>
     (\<exists>e. x = Inl e \<and> incidents s' = incidents s)
     \<or> (x = Inr () \<and> (\<exists>f\<in>mark_setters. incidents s' = update_where_id iid f (incidents s)))"
  by (auto simp: mark_alert_sent_def execute_def Let_def mark_setters_def split: list.splits option.splits if_splits)

lemma new_incident_fields [simp]:
  "inc_id (new_incident now iid tid cid) = iid"
  "inc_target_id (new_incident now iid tid cid) = tid"
  "inc_status (new_incident now iid tid cid) = ''open''"
  "failure_count (new_incident now iid tid cid) = 1"
  "started_at (new_incident now iid tid cid) = now"
  by (simp_all add: new_incident_def)

lemma targets_of_open_update:
  assumes "\<And>i. inc_status (f i) = inc_status i" "\<And>i. inc_target_id (f i) = inc_target_id i"
  shows "map inc_target_id (filter (\<lambda>i. inc_status i = ''open'') (update_where_id iid f rows))
         = map inc_target_id (filter (\<lambda>i. inc_status i = ''open'') rows)"
  by (induction rows) (simp_all add: update_where_id_def assms)

lemma targets_of_open_resolved:
  "map inc_target_id (filter (\<lambda>i. inc_status i = ''open'') (update_where_id iid (resolved_row now) rows))
   = map inc_target_id (filter (\<lambda>i. inc_id i \<noteq> iid) (filter (\<lambda>i. inc_status i = ''open'') rows))"
  by (induction rows) (simp_all add: update_where_id_def resolved_row_def)

lemma one_open_resolved: "one_open rows \<Longrightarrow> one_open (update_where_id iid (resolved_row now) rows)"
  unfolding one_open_def targets_of_open_resolved by (rule distinct_map_filter)

lemma distinct_map_filter_le1: "distinct (map f xs) \<Longrightarrow> length (filter (\<lambda>x. f x = a) xs) \<le> 1"
proof (induction xs)
  case Nil
  then show ?case by simp
next
  case (Cons x xs)
  show ?case
  proof (cases "f x = a")
    case True
    have notin: "f x \<notin> f ` set xs" using Cons.prems by simp
    have "\<forall>y\<in>set xs. f y \<noteq> a"
    proof
      fix y assume "y \<in> set xs"
      then have "f y \<in> f ` set xs" by (rule imageI)
      then show "f y \<noteq> a" using notin True by auto
    qed
    then have "filter (\<lambda>y. f y = a) xs = []" by (simp add: filter_empty_conv)
    then show ?thesis using True by simp
  next
    case False
    then show ?thesis using Cons by simp
  qed
qed

lemma one_open_length: "one_open rows \<Longrightarrow> length (open_rows tid rows) \<le> 1"
proof -
  assume "one_open rows"
  then have "length (filter (\<lambda>x. inc_target_id x = tid) (filter (\<lambda>i. inc_status i = ''open'') rows)) \<le> 1"
    unfolding one_open_def by (rule distinct_map_filter_le1)
  moreover have "filter (\<lambda>x. inc_target_id x = tid) (filter (\<lambda>i. inc_status i = ''open'') rows) = open_rows tid rows"
    by (simp add: open_rows_def conj_commute)
  ultimately show ?thesis by simp
qed

lemma update_where_id_twice:
  "(\<And>i. inc_id (f i) = inc_id i) \<Longrightarrow>
   update_where_id iid g (update_where_id iid f rows) = update_where_id iid (\<lambda>i. g (f i)) rows"
  by (simp add: update_where_id_def)

lemma update_where_id_fresh:
  "\<forall>x\<in>set rows. inc_id x \<noteq> iid \<Longrightarrow> update_where_id iid f rows = rows"
  by (induction rows) (simp_all add: update_where_id_def)

lemma update_where_id_append:
  "update_where_id iid f (rows @ rows2) = update_where_id iid f rows @ update_where_id iid f rows2"
  by (simp add: update_where_id_def)

lemma get_open_incident_ok:
  "faults s = [] \<Longrightarrow> get_open_incident tid s = (Inr (open_incident tid (incidents s)), s)"
  by (simp add: get_open_incident_def execute_no_fault)

lemma resolve_incident_ok:
  "faults s = [] \<Longrightarrow> resolve_incident now iid s
     = (Inr (), s\<lparr>incidents := update_where_id iid (resolved_row now) (incidents s)\<rparr>)"
  by (simp add: resolve_incident_def execute_no_fault resolved_row_fun)

lemma update_incident_ok:
  "faults s = [] \<Longrightarrow> update_incident iid cid True s
     = (Inr (), s\<lparr>incidents := update_where_id iid (continued_row cid) (incidents s)\<rparr>)"
  by (simp add: update_incident_def execute_no_fault continued_row_fun)

lemma create_incident_ok:
  "faults s = [] \<Longrightarrow> create_incident now tid cid s
     = (Inr (next_rowid (map inc_id (incidents s))),
        s\<lparr>incidents := incidents s @ [new_incident now (next_rowid (map inc_id (incidents s))) tid cid]\<rparr>)"
  by (simp add: create_incident_def execute_no_fault Let_def)

lemma mark_channels_ok:
  "faults s = [] \<Longrightarrow> mark_channels iid chans s
     = (None, s\<lparr>incidents := update_where_id iid (mark_row chans) (incidents s)\<rparr>)"
proof (induction chans arbitrary: s)
  case Nil
  have "mark_row [] = (\<lambda>i. i)" by (simp add: mark_row_def fun_eq_iff)
  then have "update_where_id iid (mark_row []) (incidents s) = incidents s"
    by (simp add: update_where_id_def map_idI)
  then show ?case by simp
next
  case (Cons c cs)
  show ?case
  proof (cases "c \<in> set [''slack'', ''email'', ''sms'']")
    case False
    then have "mark_row (c # cs) = mark_row cs" by (auto simp: mark_row_def fun_eq_iff)
    then show ?thesis using False Cons.IH [OF Cons.prems] by simp
  next
    case True
    then consider "c = ''slack''" | "c = ''email''" | "c = ''sms''" by auto
    then show ?thesis
    proof cases
      case 1
      let ?s' = "s\<lparr>incidents := update_where_id iid (\<lambda>i. i\<lparr>slack_alerted := 1\<rparr>) (incidents s)\<rparr>"
      have m: "mark_alert_sent iid c s = (Inr (), ?s')"
        using 1 Cons.prems by (simp add: mark_alert_sent_def alert_column_def execute_no_fault)
      have f: "faults ?s' = []" using Cons.prems by simp
      have "(\<lambda>i. mark_row cs (i\<lparr>slack_alerted := 1\<rparr>)) = mark_row (c # cs)"
        using 1 by (auto simp: mark_row_def fun_eq_iff)
      then show ?thesis using True m Cons.IH [OF f]
        by (simp add: update_where_id_twice)
    next
      case 2
      let ?s' = "s\<lparr>incidents := update_where_id iid (\<lambda>i. i\<lparr>email_alerted := 1\<rparr>) (incidents s)\<rparr>"
      have m: "mark_alert_sent iid c s = (Inr (), ?s')"
        using 2 Cons.prems by (simp add: mark_alert_sent_def alert_column_def execute_no_fault)
      have f: "faults ?s' = []" using Cons.prems by simp
      have "(\<lambda>i. mark_row cs (i\<lparr>email_alerted := 1\<rparr>)) = mark_row (c # cs)"
        using 2 by (auto simp: mark_row_def fun_eq_iff)
      then show ?thesis using True m Cons.IH [OF f]
        by (simp add: update_where_id_twice)
    next
      case 3
      let ?s' = "s\<lparr>incidents := update_where_id iid (\<lambda>i. i\<lparr>sms_alerted := 1\<rparr>) (incidents s)\<rparr>"
      have m: "mark_alert_sent iid c s = (Inr (), ?s')"
        using 3 Cons.prems by (simp add: mark_alert_sent_def alert_column_def execute_no_fault)
      have f: "faults ?s' = []" using Cons.prems by simp
      have "(\<lambda>i. mark_row cs (i\<lparr>sms_alerted := 1\<rparr>)) = mark_row (c # cs)"
        using 3 by (auto simp: mark_row_def fun_eq_iff)
      then show ?thesis using True m Cons.IH [OF f]
        by (simp add: update_where_id_twice)
    qed
  qed
qed

lemma send_slack_no_raise: "fst (send_slack cfg w title message color) = None"
  by (simp add: send_slack_def Let_def split: outcome.splits)

lemma send_initial_alert_no_raise: "fst (send_initial_alert cfg w r) = None"
  by (simp add: send_initial_alert_def Let_def send_slack_no_raise)

lemma send_recovery_alert_no_raise: "fst (send_recovery_alert cfg w r inc) = None"
  by (simp add: send_recovery_alert_def Let_def send_slack_no_raise)

lemma handle_result_idle:
  assumes "faults s = []" "open_incident (r_target_id r) (incidents s) = None" "r_status r = ''success''"
  shows "handle_result cfg w r s = (None, s, [])"
  using assms by (simp add: handle_result_def get_open_incident_ok)

lemma handle_result_resolve:
  assumes "faults s = []" "open_incident (r_target_id r) (incidents s) = Some inc" "r_status r = ''success''"
  shows "handle_result cfg w r s
         = (None, s\<lparr>incidents := update_where_id (inc_id inc) (resolved_row (clock w)) (incidents s)\<rparr>,
            snd (send_recovery_alert cfg w r inc))"
  using assms send_recovery_alert_no_raise [of cfg w r inc]
  by (cases "send_recovery_alert cfg w r inc")
     (simp add: handle_result_def get_open_incident_ok resolve_incident_ok)

lemma handle_result_continue:
  assumes "faults s = []" "open_incident (r_target_id r) (incidents s) = Some inc" "r_status r \<noteq> ''success''"
  shows "handle_result cfg w r s
         = (fst (send_escalation_alert cfg w r inc (failure_count inc + 1)),
            s\<lparr>incidents := update_where_id (inc_id inc) (continued_row (r_check_id r)) (incidents s)\<rparr>,
            snd (send_escalation_alert cfg w r inc (failure_count inc + 1)))"
  using assms
  by (cases "send_escalation_alert cfg w r inc (failure_count inc + 1)")
     (simp add: handle_result_def get_open_incident_ok update_incident_ok)

lemma handle_result_create:
  assumes "faults s = []" "open_incident (r_target_id r) (incidents s) = None" "r_status r \<noteq> ''success''"
  shows "handle_result cfg w r s
         = (None,
            s\<lparr>incidents := incidents s
                 @ [mark_row (get_default (r_alert_channels r) [''slack''])
                      (new_incident (clock w) (next_rowid (map inc_id (incidents s)))
                         (r_target_id r) (r_check_id r))]\<rparr>,
            snd (send_initial_alert cfg w r))"
proof -
  let ?iid = "next_rowid (map inc_id (incidents s))"
  let ?new = "new_incident (clock w) ?iid (r_target_id r) (r_check_id r)"
  let ?s2 = "s\<lparr>incidents := incidents s @ [?new]\<rparr>"
  have f2: "faults ?s2 = []" using assms(1) by simp
  have "update_where_id ?iid (mark_row (get_default (r_alert_channels r) [''slack''])) (incidents s @ [?new])
        = incidents s @ [mark_row (get_default (r_alert_channels r) [''slack'']) ?new]"
    using next_rowid_fresh_row [of _ "incidents s"]
    by (simp add: update_where_id_append update_where_id_fresh) (simp add: update_where_id_def)
  then show ?thesis
    using assms send_initial_alert_no_raise [of cfg w r] mark_channels_ok [OF f2]
    by (cases "send_initial_alert cfg w r")
       (simp add: handle_result_def get_open_incident_ok create_incident_ok)
qed


lemma mark_setters_flags_only: "f \<in> mark_setters \<Longrightarrow> flags_only f"
  by (auto simp: mark_setters_def flags_only_def)

lemma flags_only_comp: "flags_only f \<Longrightarrow> flags_only g \<Longrightarrow> flags_only (\<lambda>i. g (f i))"
  by (simp add: flags_only_def)

lemma mark_channels_rows:
  "\<exists>g. flags_only g \<and> incidents (snd (mark_channels iid chans s)) = update_where_id iid g (incidents s)"
proof (induction chans arbitrary: s)
  case Nil
  have "flags_only (\<lambda>i. i)" by (simp add: flags_only_def)
  moreover have "update_where_id iid (\<lambda>i. i) (incidents s) = incidents s"
    by (simp add: update_where_id_def map_idI)
  ultimately show ?case by (intro exI [of _ "\<lambda>i. i"]) simp
next
  case (Cons c cs)
  show ?case
  proof (cases "c \<in> set [''slack'', ''email'', ''sms'']")
    case False
    then show ?thesis using Cons.IH [of s] by simp
  next
    case True
    obtain x s' where m: "mark_alert_sent iid c s = (x, s')" by (cases "mark_alert_sent iid c s")
    from mark_alert_sent_out [OF m] show ?thesis
    proof
      assume a: "\<exists>e. x = Inl e \<and> incidents s' = incidents s"
      have "flags_only (\<lambda>i. i)" by (simp add: flags_only_def)
      moreover have "update_where_id iid (\<lambda>i. i) (incidents s) = incidents s"
        by (simp add: update_where_id_def map_idI)
      ultimately show ?thesis using a True m by (intro exI [of _ "\<lambda>i. i"]) auto
    next
      assume "x = Inr () \<and> (\<exists>f\<in>mark_setters. incidents s' = update_where_id iid f (incidents s))"
      then obtain f where f: "x = Inr ()" "f \<in> mark_setters"
        "incidents s' = update_where_id iid f (incidents s)" by auto
      obtain g where g: "flags_only g"
        "incidents (snd (mark_channels iid cs s')) = update_where_id iid g (incidents s')"
        using Cons.IH [of s'] by auto
      have ff: "flags_only f" using f(2) by (rule mark_setters_flags_only)
      then have "update_where_id iid g (update_where_id iid f (incidents s))
                 = update_where_id iid (\<lambda>i. g (f i)) (incidents s)"
        by (intro update_where_id_twice) (simp add: flags_only_def)
      then have "incidents (snd (mark_channels iid (c # cs) s)) = update_where_id iid (\<lambda>i. g (f i)) (incidents s)"
        using True m f(1) f(3) g(2) by simp
      then show ?thesis using flags_only_comp [OF ff g(1)] by blast
    qed
  qed
qed

lemma handle_result_rows:
  "incidents (store_of (handle_result cfg w r s)) = incidents s
   \<or> (r_status r = ''success'' \<and> (\<exists>inc. open_incident (r_target_id r) (incidents s) = Some inc
         \<and> incidents (store_of (handle_result cfg w r s))
             = update_where_id (inc_id inc) (resolved_row (clock w)) (incidents s)))
   \<or> (r_status r \<noteq> ''success'' \<and> (\<exists>inc. open_incident (r_target_id r) (incidents s) = Some inc
         \<and> incidents (store_of (handle_result cfg w r s))
             = update_where_id (inc_id inc) (continued_row (r_check_id r)) (incidents s)))
   \<or> (r_status r \<noteq> ''success'' \<and> open_incident (r_target_id r) (incidents s) = None
         \<and> (\<exists>g. flags_only g \<and> incidents (store_of (handle_result cfg w r s))
             = incidents s @ [g (new_incident (clock w) (next_rowid (map inc_id (incidents s)))
                                   (r_target_id r) (r_check_id r))]))"
proof -
  let ?tid = "r_target_id r"
  obtain x s1 where g: "get_open_incident ?tid s = (x, s1)"
    by (cases "get_open_incident ?tid s")
  note g1 = get_open_incident_out [OF g]
  show ?thesis
  proof (cases x)
    case (Inl e)
    then show ?thesis using g g1 by (simp add: handle_result_def store_of_def)
  next
    case (Inr io)
    then have g': "get_open_incident ?tid s = (Inr io, s1)" using g by simp
    have rows: "incidents s1 = incidents s" using g1 by simp
    have io: "open_incident ?tid (incidents s) = io" using g1 Inr by auto
    show ?thesis
    proof (cases io)
      case None
      show ?thesis
      proof (cases "r_status r = ''success''")
        case True
        then show ?thesis using g' rows io None by (simp add: handle_result_def store_of_def)
      next
        case False
        obtain y s2 where c: "create_incident (clock w) ?tid (r_check_id r) s1 = (y, s2)"
          by (cases "create_incident (clock w) ?tid (r_check_id r) s1")
        from create_incident_out [OF c] show ?thesis
        proof
          assume "\<exists>e. y = Inl e \<and> incidents s2 = incidents s1"
          then show ?thesis using g' rows io None False c
            by (auto simp: handle_result_def store_of_def)
        next
          let ?iid = "next_rowid (map inc_id (incidents s))"
          let ?new = "new_incident (clock w) ?iid ?tid (r_check_id r)"
          assume "y = Inr (next_rowid (map inc_id (incidents s1)))
                  \<and> incidents s2 = incidents s1
                      @ [new_incident (clock w) (next_rowid (map inc_id (incidents s1))) ?tid (r_check_id r)]"
          then have a: "y = Inr ?iid" "incidents s2 = incidents s @ [?new]" using rows by simp_all
          have idf: "flags_only (\<lambda>i. i)" by (simp add: flags_only_def)
          obtain z ev where si: "send_initial_alert cfg w r = (z, ev)"
            by (cases "send_initial_alert cfg w r")
          show ?thesis
          proof (cases z)
            case (Some e)
            then have "incidents (store_of (handle_result cfg w r s)) = incidents s @ [?new]"
              using g' None False c a si by (simp add: handle_result_def store_of_def)
            then show ?thesis using False io None idf by blast
          next
            case zn: None
            obtain gg where gg: "flags_only gg"
              "incidents (snd (mark_channels ?iid (get_default (r_alert_channels r) [''slack'']) s2))
               = update_where_id ?iid gg (incidents s2)"
              using mark_channels_rows by blast
            have "update_where_id ?iid gg (incidents s @ [?new]) = incidents s @ [gg ?new]"
              using next_rowid_fresh_row [of _ "incidents s"]
              by (simp add: update_where_id_append update_where_id_fresh) (simp add: update_where_id_def)
            then have "incidents (store_of (handle_result cfg w r s)) = incidents s @ [gg ?new]"
              using g' None False c a si zn gg(2)
              by (auto simp: handle_result_def store_of_def split: prod.splits)
            then show ?thesis using False io None gg(1) by blast
          qed
        qed
      qed
    next
      case (Some inc)
      show ?thesis
      proof (cases "r_status r = ''success''")
        case True
        obtain y s2 where c: "resolve_incident (clock w) (inc_id inc) s1 = (y, s2)"
          by (cases "resolve_incident (clock w) (inc_id inc) s1")
        from resolve_incident_out [OF c] show ?thesis
        proof
          assume "\<exists>e. y = Inl e \<and> incidents s2 = incidents s1"
          then show ?thesis using g' rows io Some True c
            by (auto simp: handle_result_def store_of_def)
        next
          assume a: "y = Inr () \<and> incidents s2 = update_where_id (inc_id inc) (resolved_row (clock w)) (incidents s1)"
          then have "incidents (store_of (handle_result cfg w r s))
                     = update_where_id (inc_id inc) (resolved_row (clock w)) (incidents s)"
            using g' Some True c rows by (simp add: handle_result_def store_of_def split: prod.splits)
          then show ?thesis using True io Some by blast
        qed
      next
        case False
        obtain y s2 where c: "update_incident (inc_id inc) (r_check_id r) True s1 = (y, s2)"
          by (cases "update_incident (inc_id inc) (r_check_id r) True s1")
        from update_incident_out [OF c] show ?thesis
        proof
          assume "\<exists>e. y = Inl e \<and> incidents s2 = incidents s1"
          then show ?thesis using g' rows io Some False c
            by (auto simp: handle_result_def store_of_def)
        next
          assume a: "y = Inr () \<and> incidents s2 = update_where_id (inc_id inc) (continued_row (r_check_id r)) (incidents s1)"
          then have "incidents (store_of (handle_result cfg w r s))
                     = update_where_id (inc_id inc) (continued_row (r_check_id r)) (incidents s)"
            using g' Some False c rows by (simp add: handle_result_def store_of_def split: prod.splits)
          then show ?thesis using False io Some by blast
        qed
      qed
    qed
  qed
qed

lemma one_open_append:
  assumes "open_rows (inc_target_id n) rows = []" "one_open rows"
  shows "one_open (rows @ [n])"
proof -
  have "inc_target_id n \<notin> inc_target_id ` {i \<in> set rows. inc_status i = ''open''}"
  proof
    assume "inc_target_id n \<in> inc_target_id ` {i \<in> set rows. inc_status i = ''open''}"
    then obtain i where "i \<in> set rows" "inc_status i = ''open''" "inc_target_id i = inc_target_id n"
      by auto
    then have "i \<in> set (open_rows (inc_target_id n) rows)" by (simp add: open_rows_def)
    then show False using assms(1) by simp
  qed
  then show ?thesis using assms(2) by (simp add: one_open_def)
qed

lemma handle_result_one_open:
  assumes "one_open (incidents s)"
  shows "one_open (incidents (store_of (handle_result cfg w r s)))"
  using handle_result_rows [of cfg w r s]
proof (elim disjE conjE exE, goal_cases)
  case 1
  then show ?case using assms by simp
next
  case (2 inc)
  then show ?case using assms by (simp add: one_open_resolved)
next
  case (3 inc)
  then show ?case using assms
    by (simp add: one_open_def targets_of_open_update continued_row_def)
next
  case (4 g)
  have "inc_target_id (g (new_incident (clock w) (next_rowid (map inc_id (incidents s)))
                                 (r_target_id r) (r_check_id r))) = r_target_id r"
    using 4(3) by (simp add: flags_only_def)
  then show ?case using 4 assms
    by (simp add: one_open_append open_incident_None)
qed

lemma handle_results_one_open:
  "one_open (incidents s) \<Longrightarrow> one_open (incidents (handle_results cfg steps s))"
  by (induction steps arbitrary: s) (auto simp: handle_result_one_open)

lemma length_update_where_id [simp]: "length (update_where_id iid f rows) = length rows"
  by (simp add: update_where_id_def)

section \<open>The incident lifecycle\<close>

text \<open>
  Claim C1. Whatever sequence of check results is handled through \<^verbatim>\<open>handle_result\<close>, in
  whatever worlds and with whatever statements of the store failing, a store with at most
  one open incident per target keeps at most one open incident per target after every
  prefix of the sequence. Since a failing statement makes \<^verbatim>\<open>handle_result\<close> stop where it
  is, this covers the states between two statements of one call as well. A call adds a
  row only when \<^verbatim>\<open>get_open_incident\<close> found none and the status is not \<^verbatim>\<open>success\<close>, and
  then exactly one; when there is an open incident, the call leaves the table as it is,
  resolves the rows with that incident's id, or updates them with the new check.
\<close>

theorem at_most_one_open_incident:
  assumes "one_open (incidents s)"
  shows "(\<forall>k tid. length (open_rows tid (incidents (handle_results cfg (take k steps) s))) \<le> 1)
     \<and> (length (incidents (store_of (handle_result cfg w r s))) \<noteq> length (incidents s)
          \<longrightarrow> open_incident (r_target_id r) (incidents s) = None \<and> r_status r \<noteq> ''success''
              \<and> length (incidents (store_of (handle_result cfg w r s))) = Suc (length (incidents s)))
     \<and> (\<forall>inc. open_incident (r_target_id r) (incidents s) = Some inc
          \<longrightarrow> incidents (store_of (handle_result cfg w r s)) = incidents s
              \<or> (r_status r = ''success''
                  \<and> incidents (store_of (handle_result cfg w r s))
                      = update_where_id (inc_id inc) (resolved_row (clock w)) (incidents s))
              \<or> (r_status r \<noteq> ''success''
                  \<and> incidents (store_of (handle_result cfg w r s))
                      = update_where_id (inc_id inc) (continued_row (r_check_id r)) (incidents s)))"
proof (intro conjI allI impI)
  fix k tid
  show "length (open_rows tid (incidents (handle_results cfg (take k steps) s))) \<le> 1"
    using handle_results_one_open [OF assms] by (rule one_open_length)
next
  assume n: "length (incidents (store_of (handle_result cfg w r s))) \<noteq> length (incidents s)"
  with handle_result_rows [of cfg w r s]
  show "open_incident (r_target_id r) (incidents s) = None" by auto
  from n handle_result_rows [of cfg w r s]
  show "r_status r \<noteq> ''success''" by auto
  from n handle_result_rows [of cfg w r s]
  show "length (incidents (store_of (handle_result cfg w r s))) = Suc (length (incidents s))" by auto
next
  fix inc
  assume "open_incident (r_target_id r) (incidents s) = Some inc"
  with handle_result_rows [of cfg w r s]
  show "incidents (store_of (handle_result cfg w r s)) = incidents s
              \<or> (r_status r = ''success''
                  \<and> incidents (store_of (handle_result cfg w r s))
                      = update_where_id (inc_id inc) (resolved_row (clock w)) (incidents s))
              \<or> (r_status r \<noteq> ''success''
                  \<and> incidents (store_of (handle_result cfg w r s))
                      = update_where_id (inc_id inc) (continued_row (r_check_id r)) (incidents s))"
    by auto
qed

theorem at_most_one_open_incident_witness:
  "one_open (incidents empty_store)
   \<and> (\<forall>k tid. length (open_rows tid (incidents (handle_results default_config
         (take k [(quiet_world, failing_result), (quiet_world, failing_result),
                  (quiet_world, passing_result), (quiet_world, failing_result)]) empty_store))) \<le> 1)"
  using at_most_one_open_incident [of empty_store default_config
          "[(quiet_world, failing_result), (quiet_world, failing_result),
            (quiet_world, passing_result), (quiet_world, failing_result)]" quiet_world failing_result]
  by (simp add: one_open_def empty_store_def)

subsection \<open>Counting consecutive failures\<close>

lemma fold_later_row_map:
  "(\<And>i. started_at (h i) = started_at i) \<Longrightarrow>
   fold later_row (map h rows) (h i) = h (fold later_row rows i)"
proof (induction rows arbitrary: i)
  case Nil
  then show ?case by simp
next
  case (Cons x xs)
  have "later_row (h x) (h i) = h (later_row x i)" using Cons.prems by (simp add: later_row_def)
  then show ?case using Cons by simp
qed

lemma pick_latest_map:
  "(\<And>i. started_at (h i) = started_at i) \<Longrightarrow> pick_latest (map h rows) = map_option h (pick_latest rows)"
  by (cases rows) (simp_all add: fold_later_row_map)

lemma open_rows_update:
  assumes "\<And>i. inc_status (f i) = inc_status i" "\<And>i. inc_target_id (f i) = inc_target_id i"
  shows "open_rows tid (update_where_id iid f rows)
         = map (\<lambda>i. if inc_id i = iid then f i else i) (open_rows tid rows)"
  by (induction rows) (simp_all add: open_rows_def update_where_id_def assms)

lemma open_incident_update:
  assumes "\<And>i. inc_status (f i) = inc_status i" "\<And>i. inc_target_id (f i) = inc_target_id i"
    "\<And>i. started_at (f i) = started_at i"
  shows "open_incident tid (update_where_id iid f rows)
         = map_option (\<lambda>i. if inc_id i = iid then f i else i) (open_incident tid rows)"
  unfolding open_incident_def open_rows_update [of f, OF assms(1,2)]
  by (rule pick_latest_map) (simp add: assms(3))

lemma open_rows_untouched:
  assumes "\<forall>x\<in>set rows. inc_id x = iid \<longrightarrow> inc_target_id x \<noteq> tid"
    "\<And>i. inc_target_id (f i) = inc_target_id i"
  shows "open_rows tid (update_where_id iid f rows) = open_rows tid rows"
  using assms(1) by (induction rows) (simp_all add: open_rows_def update_where_id_def assms(2))

lemma distinct_ids_same:
  "distinct (map inc_id rows) \<Longrightarrow> x \<in> set rows \<Longrightarrow> y \<in> set rows \<Longrightarrow> inc_id x = inc_id y \<Longrightarrow> x = y"
  by (meson distinct_map inj_onD)

lemma ids_update_where_id:
  "(\<And>i. inc_id (f i) = inc_id i) \<Longrightarrow> map inc_id (update_where_id iid f rows) = map inc_id rows"
  by (simp add: update_where_id_def)

lemma open_incident_append_new:
  assumes "open_rows tid rows = []" "inc_target_id n = tid" "inc_status n = ''open''"
  shows "open_incident tid (rows @ [n]) = Some n"
  using assms by (simp add: open_incident_def open_rows_def)

lemma open_incident_append_other:
  "inc_target_id n \<noteq> tid \<Longrightarrow> open_incident tid (rows @ [n]) = open_incident tid rows"
  by (simp add: open_incident_def open_rows_def)

lemma mark_row_fields [simp]:
  "inc_id (mark_row chans i) = inc_id i" "inc_target_id (mark_row chans i) = inc_target_id i"
  "inc_status (mark_row chans i) = inc_status i" "failure_count (mark_row chans i) = failure_count i"
  "started_at (mark_row chans i) = started_at i" "resolved_at (mark_row chans i) = resolved_at i"
  "last_check_id (mark_row chans i) = last_check_id i"
  by (simp_all add: mark_row_def)

lemma continued_row_fields [simp]:
  "inc_id (continued_row c i) = inc_id i" "inc_target_id (continued_row c i) = inc_target_id i"
  "inc_status (continued_row c i) = inc_status i" "failure_count (continued_row c i) = failure_count i + 1"
  "started_at (continued_row c i) = started_at i" "last_check_id (continued_row c i) = c"
  by (simp_all add: continued_row_def)

lemma resolved_row_fields [simp]:
  "inc_id (resolved_row t i) = inc_id i" "inc_target_id (resolved_row t i) = inc_target_id i"
  "inc_status (resolved_row t i) = ''resolved''" "failure_count (resolved_row t i) = failure_count i"
  "resolved_at (resolved_row t i) = Some t"
  by (simp_all add: resolved_row_def)

text \<open>One call without store faults: what the store is afterwards.\<close>

lemma handle_result_store:
  assumes "faults s = []"
  shows "store_of (handle_result cfg w r s) =
     (case open_incident (r_target_id r) (incidents s) of
        None \<Rightarrow> if r_status r = ''success'' then s
                else s\<lparr>incidents := incidents s
                       @ [mark_row (get_default (r_alert_channels r) [''slack''])
                            (new_incident (clock w) (next_rowid (map inc_id (incidents s)))
                               (r_target_id r) (r_check_id r))]\<rparr>
      | Some inc \<Rightarrow>
          if r_status r = ''success''
          then s\<lparr>incidents := update_where_id (inc_id inc) (resolved_row (clock w)) (incidents s)\<rparr>
          else s\<lparr>incidents := update_where_id (inc_id inc) (continued_row (r_check_id r)) (incidents s)\<rparr>)"
proof (cases "open_incident (r_target_id r) (incidents s)")
  case None
  then show ?thesis
    using handle_result_idle [OF assms None, of cfg w] handle_result_create [OF assms None, of cfg w]
    by (simp add: store_of_def)
next
  case (Some inc)
  then show ?thesis
    using handle_result_resolve [OF assms Some, of cfg w] handle_result_continue [OF assms Some, of cfg w]
    by (simp add: store_of_def)
qed

lemma handle_result_faults:
  "faults s = [] \<Longrightarrow> faults (store_of (handle_result cfg w r s)) = []"
  by (simp add: handle_result_store split: option.splits)

lemma handle_result_distinct_ids:
  assumes "distinct (map inc_id (incidents s))"
  shows "distinct (map inc_id (incidents (store_of (handle_result cfg w r s))))"
  using handle_result_rows [of cfg w r s]
proof (elim disjE conjE exE, goal_cases)
  case 1
  then show ?case using assms by simp
next
  case (2 inc)
  then show ?case using assms by (simp add: ids_update_where_id)
next
  case (3 inc)
  then show ?case using assms by (simp add: ids_update_where_id)
next
  case (4 g)
  have "inc_id (g (new_incident (clock w) (next_rowid (map inc_id (incidents s)))
                                 (r_target_id r) (r_check_id r))) = next_rowid (map inc_id (incidents s))"
    using 4(3) by (simp add: flags_only_def)
  then show ?case using 4 assms next_rowid_fresh [of "map inc_id (incidents s)"] by simp
qed

lemma own_failure_step:
  assumes "faults s = []" "r_status r \<noteq> ''success''"
  shows "\<exists>inc. open_incident (r_target_id r) (incidents (store_of (handle_result cfg w r s))) = Some inc
           \<and> failure_count inc = open_count (r_target_id r) (incidents s) + 1"
proof (cases "open_incident (r_target_id r) (incidents s)")
  case None
  have st: "incidents (store_of (handle_result cfg w r s)) = incidents s
       @ [mark_row (get_default (r_alert_channels r) [''slack''])
            (new_incident (clock w) (next_rowid (map inc_id (incidents s))) (r_target_id r) (r_check_id r))]"
    using assms None by (simp add: handle_result_store)
  have "open_rows (r_target_id r) (incidents s) = []" using None by (simp add: open_incident_None)
  then show ?thesis unfolding st using None
    by (simp add: open_count_def open_incident_append_new)
next
  case (Some inc)
  have st: "incidents (store_of (handle_result cfg w r s))
            = update_where_id (inc_id inc) (continued_row (r_check_id r)) (incidents s)"
    using assms Some by (simp add: handle_result_store)
  show ?thesis unfolding st using Some
    by (simp add: open_count_def open_incident_update)
qed

lemma other_target_step:
  assumes "faults s = []" "distinct (map inc_id (incidents s))" "r_target_id r \<noteq> tid"
  shows "open_incident tid (incidents (store_of (handle_result cfg w r s))) = open_incident tid (incidents s)"
proof (cases "open_incident (r_target_id r) (incidents s)")
  case None
  then show ?thesis using assms
    by (simp add: handle_result_store open_incident_append_other)
next
  case (Some inc)
  have inc: "inc \<in> set (incidents s)" "inc_target_id inc = r_target_id r"
    using open_incident_Some [OF Some] by simp_all
  have un: "\<forall>x\<in>set (incidents s). inc_id x = inc_id inc \<longrightarrow> inc_target_id x \<noteq> tid"
  proof (intro ballI impI)
    fix x assume "x \<in> set (incidents s)" "inc_id x = inc_id inc"
    then have "x = inc" using distinct_ids_same [OF assms(2) _ inc(1)] by simp
    then show "inc_target_id x \<noteq> tid" using inc(2) assms(3) by simp
  qed
  show ?thesis using Some assms(1)
    by (simp add: handle_result_store open_incident_def open_rows_untouched [OF un])
qed


lemma failure_run:
  assumes "faults s = []" "distinct (map inc_id (incidents s))"
    "\<forall>x\<in>set steps. r_target_id (snd x) = tid \<longrightarrow> r_status (snd x) \<noteq> ''success''"
  shows "faults (handle_results cfg steps s) = []
     \<and> distinct (map inc_id (incidents (handle_results cfg steps s)))
     \<and> (filter (\<lambda>x. r_target_id (snd x) = tid) steps = []
          \<longrightarrow> open_incident tid (incidents (handle_results cfg steps s)) = open_incident tid (incidents s))
     \<and> (filter (\<lambda>x. r_target_id (snd x) = tid) steps \<noteq> []
          \<longrightarrow> (\<exists>inc. open_incident tid (incidents (handle_results cfg steps s)) = Some inc
                \<and> failure_count inc = open_count tid (incidents s)
                     + int (length (filter (\<lambda>x. r_target_id (snd x) = tid) steps))))"
  using assms
proof (induction steps arbitrary: s)
  case Nil
  then show ?case by simp
next
  case (Cons step rest)
  obtain w r where step: "step = (w, r)" by (cases step)
  let ?s1 = "store_of (handle_result cfg w r s)"
  have f1: "faults ?s1 = []" using Cons.prems(1) by (rule handle_result_faults)
  have d1: "distinct (map inc_id (incidents ?s1))" using Cons.prems(2) by (rule handle_result_distinct_ids)
  have r1: "\<forall>x\<in>set rest. r_target_id (snd x) = tid \<longrightarrow> r_status (snd x) \<noteq> ''success''"
    using Cons.prems(3) by simp
  note IH = Cons.IH [OF f1 d1 r1]
  show ?case
  proof (cases "r_target_id r = tid")
    case True
    have "r_status r \<noteq> ''success''" using Cons.prems(3) True step by simp
    from own_failure_step [OF Cons.prems(1) this, of cfg w]
    obtain inc1 where inc1: "open_incident tid (incidents ?s1) = Some inc1"
      "failure_count inc1 = open_count tid (incidents s) + 1" using True by auto
    then have oc: "open_count tid (incidents ?s1) = open_count tid (incidents s) + 1"
      by (simp add: open_count_def)
    show ?thesis
    proof (cases "filter (\<lambda>x. r_target_id (snd x) = tid) rest = []")
      case e: True
      then show ?thesis using IH inc1 True step by simp
    next
      case ne: False
      then show ?thesis using IH oc True step by auto
    qed
  next
    case False
    have "open_incident tid (incidents ?s1) = open_incident tid (incidents s)"
      using other_target_step [OF Cons.prems(1,2) False] .
    then have "open_count tid (incidents ?s1) = open_count tid (incidents s)"
      by (simp add: open_count_def)
    then show ?thesis using IH False step \<open>open_incident tid (incidents ?s1) = open_incident tid (incidents s)\<close>
      by simp
  qed
qed

text \<open>
  Claim C3. Start from a store with no open incident for the target (a clean state, or
  the state after a resolution) in which no statement fails. Handle any sequence of
  results in which every result of this target is a non-success; results of other targets
  may come in between. After every prefix that holds \<open>N \<ge> 1\<close> results of the target,
  \<^verbatim>\<open>get_open_incident\<close> returns an open incident whose \<open>failure_count\<close> is exactly \<open>N\<close>:
  1 after the first, and one more after each further one.
\<close>

theorem failure_count_counts_failures:
  assumes "faults s = []" "distinct (map inc_id (incidents s))"
    "open_incident tid (incidents s) = None"
    "\<forall>x\<in>set steps. r_target_id (snd x) = tid \<longrightarrow> r_status (snd x) \<noteq> ''success''"
  shows "\<forall>k. 0 < length (filter (\<lambda>x. r_target_id (snd x) = tid) (take k steps)) \<longrightarrow>
           (\<exists>inc. fst (get_open_incident tid (handle_results cfg (take k steps) s)) = Inr (Some inc)
              \<and> failure_count inc = int (length (filter (\<lambda>x. r_target_id (snd x) = tid) (take k steps))))"
proof (intro allI impI)
  fix k
  assume n: "0 < length (filter (\<lambda>x. r_target_id (snd x) = tid) (take k steps))"
  have pre: "\<forall>x\<in>set (take k steps). r_target_id (snd x) = tid \<longrightarrow> r_status (snd x) \<noteq> ''success''"
    using assms(4) by (meson in_set_takeD)
  note run = failure_run [OF assms(1,2) pre, of cfg]
  have "open_count tid (incidents s) = 0" using assms(3) by (simp add: open_count_def)
  then obtain inc where "open_incident tid (incidents (handle_results cfg (take k steps) s)) = Some inc"
    "failure_count inc = int (length (filter (\<lambda>x. r_target_id (snd x) = tid) (take k steps)))"
    using run n by auto
  moreover have "faults (handle_results cfg (take k steps) s) = []" using run by simp
  ultimately show "\<exists>inc. fst (get_open_incident tid (handle_results cfg (take k steps) s)) = Inr (Some inc)
              \<and> failure_count inc = int (length (filter (\<lambda>x. r_target_id (snd x) = tid) (take k steps)))"
    by (simp add: get_open_incident_ok)
qed

theorem failure_count_counts_failures_witness:
  "faults empty_store = [] \<and> distinct (map inc_id (incidents empty_store))
   \<and> open_incident 1 (incidents empty_store) = None
   \<and> map (\<lambda>x. (r_target_id (snd x), r_status (snd x))) (replicate 3 (quiet_world, failing_result))
       = replicate 3 (1, ''failure'')
   \<and> (\<exists>inc. fst (get_open_incident 1 (handle_results default_config (replicate 3 (quiet_world, failing_result)) empty_store))
                = Inr (Some inc) \<and> failure_count inc = 3)"
proof -
  have h1: "faults empty_store = []" by (simp add: empty_store_def)
  have h2: "distinct (map inc_id (incidents empty_store))" by (simp add: empty_store_def)
  have h3: "open_incident 1 (incidents empty_store) = None"
    by (simp add: empty_store_def open_incident_def open_rows_def)
  have h4: "\<forall>x\<in>set (replicate 3 (quiet_world, failing_result)). r_target_id (snd x) = 1 \<longrightarrow> r_status (snd x) \<noteq> ''success''"
    by (simp add: failing_result_def)
  have "filter (\<lambda>x. r_target_id (snd x) = 1) (take 3 (replicate 3 (quiet_world, failing_result)))
        = replicate 3 (quiet_world, failing_result)"
    by (simp add: failing_result_def)
  then show ?thesis
    using h1 h2 h3 failure_count_counts_failures [OF h1 h2 h3 h4, of default_config, THEN spec, of 3]
    by (simp add: failing_result_def)
qed

subsection \<open>Resolution\<close>

lemma pick_latest_single: "length rows \<le> 1 \<Longrightarrow> pick_latest rows = Some i \<Longrightarrow> rows = [i]"
  by (cases rows) auto

lemma one_open_single:
  "one_open rows \<Longrightarrow> open_incident tid rows = Some inc \<Longrightarrow> open_rows tid rows = [inc]"
  using one_open_length [of rows tid] pick_latest_single [of "open_rows tid rows" inc]
  by (simp add: open_incident_def)

lemma open_rows_resolved:
  "open_rows tid (update_where_id iid (resolved_row t) rows)
   = filter (\<lambda>i. inc_id i \<noteq> iid) (open_rows tid rows)"
  by (induction rows) (simp_all add: open_rows_def update_where_id_def)

lemma update_where_id_mem:
  "i \<in> set rows \<Longrightarrow> inc_id i = iid \<Longrightarrow> f i \<in> set (update_where_id iid f rows)"
  by (force simp: update_where_id_def)

lemma update_where_id_other_mem:
  "i \<in> set rows \<Longrightarrow> inc_id i \<noteq> iid \<Longrightarrow> i \<in> set (update_where_id iid f rows)"
  by (force simp: update_where_id_def)

lemma closed_row_kept:
  assumes "distinct (map inc_id (incidents s))" "i \<in> set (incidents s)" "inc_status i \<noteq> ''open''"
  shows "i \<in> set (incidents (store_of (handle_result cfg w r s)))"
  using handle_result_rows [of cfg w r s]
proof (elim disjE conjE exE, goal_cases)
  case 1
  then show ?case using assms by simp
next
  case (2 inc)
  have "inc \<in> set (incidents s)" "inc_status inc = ''open''" using open_incident_Some [OF 2(2)] by simp_all
  then have "inc_id i \<noteq> inc_id inc" using distinct_ids_same [OF assms(1,2)] assms(3) by auto
  then show ?case using 2(3) assms(2) by (simp add: update_where_id_other_mem)
next
  case (3 inc)
  have "inc \<in> set (incidents s)" "inc_status inc = ''open''" using open_incident_Some [OF 3(2)] by simp_all
  then have "inc_id i \<noteq> inc_id inc" using distinct_ids_same [OF assms(1,2)] assms(3) by auto
  then show ?case using 3(3) assms(2) by (simp add: update_where_id_other_mem)
next
  case (4 g)
  then show ?case using assms(2) by simp
qed

lemma closed_row_kept_run:
  assumes "distinct (map inc_id (incidents s))" "i \<in> set (incidents s)" "inc_status i \<noteq> ''open''"
  shows "i \<in> set (incidents (handle_results cfg steps s))"
  using assms
proof (induction steps arbitrary: s)
  case Nil
  then show ?case by simp
next
  case (Cons step rest)
  obtain w r where step: "step = (w, r)" by (cases step)
  have "distinct (map inc_id (incidents (store_of (handle_result cfg w r s))))"
    using Cons.prems(1) by (rule handle_result_distinct_ids)
  moreover have "i \<in> set (incidents (store_of (handle_result cfg w r s)))"
    using Cons.prems by (rule closed_row_kept)
  ultimately show ?case using Cons.IH Cons.prems(3) step by simp
qed

text \<open>
  Claim C4. In a store without failing statements that holds an open incident \<open>inc\<close> for
  the target (at most one open incident per target, ids pairwise different), a success
  check resolves it: \<^verbatim>\<open>handle_result\<close> raises nothing, the row becomes \<open>inc\<close> with status
  \<^verbatim>\<open>resolved\<close> and \<open>resolved_at\<close> set, and no open incident is left for the target. The
  recovery alert is built from the row as it was read before the update, so its message
  carries \<open>failure_count inc\<close>. The resolved row stays in the table unchanged whatever
  is handled afterwards, with whatever statements failing. A non-success check of the
  target that follows opens an incident with \<open>failure_count = 1\<close> and an id that no row
  of the table had.
\<close>

theorem recovery_resolves_incident:
  fixes s :: store and r r2 :: check_result and w w2 :: world and cfg :: alert_config
  defines "s1 \<equiv> store_of (handle_result cfg w r s)"
  defines "s2 \<equiv> store_of (handle_result cfg w2 r2 s1)"
  assumes nf: "faults s = []" and oo: "one_open (incidents s)"
    and di: "distinct (map inc_id (incidents s))"
    and op: "open_incident (r_target_id r) (incidents s) = Some inc"
    and ok: "r_status r = ''success''"
    and same: "r_target_id r2 = r_target_id r" and bad: "r_status r2 \<noteq> ''success''"
  shows "raised (handle_result cfg w r s) = None
     \<and> incidents s1 = update_where_id (inc_id inc) (resolved_row (clock w)) (incidents s)
     \<and> inc\<lparr>inc_status := ''resolved'', resolved_at := Some (clock w)\<rparr> \<in> set (incidents s1)
     \<and> fst (get_open_incident (r_target_id r) s1) = Inr None
     \<and> events_of (handle_result cfg w r s)
         = (if ''slack'' \<in> set (get_default (r_alert_channels r) [])
            then snd (send_slack cfg w (Recovered (r_name r))
                        (RecoveryMessage r (failure_count inc)) ''good'')
            else [])
     \<and> (\<forall>steps fs. inc\<lparr>inc_status := ''resolved'', resolved_at := Some (clock w)\<rparr>
            \<in> set (incidents (handle_results cfg steps (s1\<lparr>faults := fs\<rparr>))))
     \<and> (\<exists>new. fst (get_open_incident (r_target_id r) s2) = Inr (Some new)
            \<and> failure_count new = 1 \<and> inc_id new \<noteq> inc_id inc
            \<and> inc_id new \<notin> set (map inc_id (incidents s)))"
proof -
  let ?tid = "r_target_id r"
  let ?res = "inc\<lparr>inc_status := ''resolved'', resolved_at := Some (clock w)\<rparr>"
  note hr = handle_result_resolve [OF nf op ok, of cfg w]
  have inc: "inc \<in> set (incidents s)" "inc_target_id inc = ?tid" "inc_status inc = ''open''"
    using open_incident_Some [OF op] by simp_all
  have st1: "s1 = s\<lparr>incidents := update_where_id (inc_id inc) (resolved_row (clock w)) (incidents s)\<rparr>"
    unfolding s1_def hr by (simp add: store_of_def)
  have rows1: "incidents s1 = update_where_id (inc_id inc) (resolved_row (clock w)) (incidents s)"
    using st1 by simp
  have f1: "faults s1 = []" using st1 nf by simp
  have ids1: "map inc_id (incidents s1) = map inc_id (incidents s)"
    unfolding rows1 by (simp add: ids_update_where_id)
  have d1: "distinct (map inc_id (incidents s1))" using ids1 di by simp
  have res_eq: "resolved_row (clock w) inc = ?res" by (simp add: resolved_row_def)
  have mem1: "?res \<in> set (incidents s1)"
    unfolding rows1 using update_where_id_mem [OF inc(1), of "inc_id inc" "resolved_row (clock w)"] res_eq
    by simp
  have "open_rows ?tid (incidents s) = [inc]" using one_open_single [OF oo op] .
  then have none1: "open_rows ?tid (incidents s1) = []" unfolding rows1 open_rows_resolved by simp
  then have oi1: "open_incident ?tid (incidents s1) = None" by (simp add: open_incident_None)
  have a: "raised (handle_result cfg w r s) = None" unfolding hr by (simp add: raised_def)
  have c: "fst (get_open_incident ?tid s1) = Inr None" using f1 oi1 by (simp add: get_open_incident_ok)
  have d: "events_of (handle_result cfg w r s)
         = (if ''slack'' \<in> set (get_default (r_alert_channels r) [])
            then snd (send_slack cfg w (Recovered (r_name r))
                        (RecoveryMessage r (failure_count inc)) ''good'')
            else [])"
    unfolding hr by (simp add: events_of_def send_recovery_alert_def Let_def)
  have e: "\<forall>steps fs. ?res \<in> set (incidents (handle_results cfg steps (s1\<lparr>faults := fs\<rparr>)))"
  proof (intro allI)
    fix steps fs
    show "?res \<in> set (incidents (handle_results cfg steps (s1\<lparr>faults := fs\<rparr>)))"
      using d1 mem1 by (intro closed_row_kept_run) simp_all
  qed
  have oi1': "open_incident (r_target_id r2) (incidents s1) = None" using oi1 same by simp
  let ?new = "mark_row (get_default (r_alert_channels r2) [''slack''])
                (new_incident (clock w2) (next_rowid (map inc_id (incidents s1))) (r_target_id r2) (r_check_id r2))"
  have st2: "s2 = s1\<lparr>incidents := incidents s1 @ [?new]\<rparr>"
    unfolding s2_def handle_result_create [OF f1 oi1' bad, of cfg w2] by (simp add: store_of_def)
  have "open_incident ?tid (incidents s2) = Some ?new"
    using none1 same unfolding st2 by (simp add: open_incident_append_new)
  moreover have "faults s2 = []" using st2 f1 by simp
  ultimately have g2: "fst (get_open_incident ?tid s2) = Inr (Some ?new)"
    by (simp add: get_open_incident_ok)
  have fresh: "inc_id ?new \<notin> set (map inc_id (incidents s))"
    using next_rowid_fresh [of "map inc_id (incidents s1)"] ids1 by simp
  then have "inc_id ?new \<noteq> inc_id inc" using inc(1) by force
  then have f: "\<exists>new. fst (get_open_incident ?tid s2) = Inr (Some new)
            \<and> failure_count new = 1 \<and> inc_id new \<noteq> inc_id inc
            \<and> inc_id new \<notin> set (map inc_id (incidents s))"
    using g2 fresh by (intro exI [of _ ?new]) simp
  show ?thesis using a rows1 mem1 c d e f by blast
qed

theorem recovery_resolves_incident_witness:
  "faults open_store = [] \<and> one_open (incidents open_store)
   \<and> distinct (map inc_id (incidents open_store))
   \<and> open_incident (r_target_id passing_result) (incidents open_store) = Some open_row
   \<and> r_status passing_result = ''success''
   \<and> r_target_id failing_result = r_target_id passing_result
   \<and> r_status failing_result = ''failure''
   \<and> fst (get_open_incident 1 (store_of (handle_result default_config quiet_world passing_result open_store)))
       = Inr None
   \<and> open_row\<lparr>inc_status := ''resolved'', resolved_at := Some 7\<rparr>
       \<in> set (incidents (store_of (handle_result default_config quiet_world passing_result open_store)))
   \<and> hd (events_of (handle_result default_config quiet_world passing_result open_store))
       = CallSlack (Recovered ''api'') (RecoveryMessage passing_result 2) ''good''"
proof -
  have h1: "faults open_store = []" by (simp add: open_store_def)
  have h2: "one_open (incidents open_store)" by (simp add: open_store_def one_open_def)
  have h3: "distinct (map inc_id (incidents open_store))" by (simp add: open_store_def)
  have h4: "open_incident (r_target_id passing_result) (incidents open_store) = Some open_row"
    by (simp add: open_store_def open_incident_def open_rows_def passing_result_def open_row_def)
  have h5: "r_status passing_result = ''success''" by (simp add: passing_result_def)
  have h6: "r_target_id failing_result = r_target_id passing_result"
    by (simp add: passing_result_def failing_result_def)
  have h7: "r_status failing_result \<noteq> ''success''" by (simp add: failing_result_def)
  have h8: "r_status failing_result = ''failure''" by (simp add: failing_result_def)
  have t1: "r_target_id passing_result = 1" "r_name passing_result = ''api''"
    "r_alert_channels passing_result = Some [''slack'', ''email'', ''sms'']"
    by (simp_all add: passing_result_def)
  have t2: "clock quiet_world = 7" "failure_count open_row = 2"
    by (simp_all add: quiet_world_def open_row_def)
  note inst = recovery_resolves_incident [OF h1 h2 h3 h4 h5 h6 h7, where cfg = default_config
               and w = quiet_world and ?w2.0 = quiet_world]
  have ev: "snd (send_slack default_config quiet_world (Recovered ''api'')
                  (RecoveryMessage passing_result 2) ''good'')
            = [CallSlack (Recovered ''api'') (RecoveryMessage passing_result 2) ''good'',
               Attempt (ClawdbotMessage ''#alerts'' (Recovered ''api'') (RecoveryMessage passing_result 2))
                 Delivered]"
    by (simp add: send_slack_def default_config_def quiet_world_def get_default_def)
  have c1: "fst (get_open_incident (r_target_id passing_result)
              (store_of (handle_result default_config quiet_world passing_result open_store))) = Inr None"
    using inst by (elim conjE) assumption
  have c2: "open_row\<lparr>inc_status := ''resolved'', resolved_at := Some (clock quiet_world)\<rparr>
       \<in> set (incidents (store_of (handle_result default_config quiet_world passing_result open_store)))"
    using inst by (elim conjE) assumption
  have c3: "events_of (handle_result default_config quiet_world passing_result open_store)
         = (if ''slack'' \<in> set (get_default (r_alert_channels passing_result) [])
            then snd (send_slack default_config quiet_world (Recovered (r_name passing_result))
                        (RecoveryMessage passing_result (failure_count open_row)) ''good'')
            else [])"
    using inst by (elim conjE) assumption
  have c3': "hd (events_of (handle_result default_config quiet_world passing_result open_store))
       = CallSlack (Recovered ''api'') (RecoveryMessage passing_result 2) ''good''"
    unfolding c3 t1 t2 by (simp add: get_default_def ev)
  show ?thesis
    using h1 h2 h3 h4 h5 h6 h8 c1 c2 c3' unfolding t1 t2 by simp
qed

section \<open>Escalation\<close>

lemma twilio_loop_kinds:
  "\<not> list_ex is_email_escalation (twilio_loop w f m rs)
   \<and> \<not> list_ex is_sms_escalation (twilio_loop w f m rs)
   \<and> \<not> list_ex is_initial_alert (twilio_loop w f m rs)"
  by (induction rs)
     (auto simp: Let_def is_email_escalation_def is_sms_escalation_def is_initial_alert_def
           split: outcome.splits)

lemma send_slack_kinds:
  "\<not> list_ex is_email_escalation (snd (send_slack cfg w t m c))
   \<and> \<not> list_ex is_sms_escalation (snd (send_slack cfg w t m c))"
  by (auto simp: send_slack_def Let_def is_email_escalation_def is_sms_escalation_def
           split: outcome.splits)

lemma send_slack_initial:
  "list_ex is_initial_alert (snd (send_slack cfg w (AlertDown n) m c))"
  by (auto simp: send_slack_def Let_def is_initial_alert_def split: outcome.splits)

lemma smtp_deliver_kinds:
  "list_ex is_email_escalation (snd (smtp_deliver w p t m rs)) = is_email_escalation (CallEmail t m rs)
   \<and> \<not> list_ex is_sms_escalation (snd (smtp_deliver w p t m rs))
   \<and> \<not> list_ex is_initial_alert (snd (smtp_deliver w p t m rs))
   \<and> fst (smtp_deliver w p t m rs) = None"
  by (auto simp: smtp_deliver_def Let_def is_email_escalation_def is_sms_escalation_def
                 is_initial_alert_def split: outcome.splits title.splits)

lemma send_email_kinds:
  "list_ex is_email_escalation (snd (send_email w t m rs)) = is_email_escalation (CallEmail t m rs)
   \<and> \<not> list_ex is_sms_escalation (snd (send_email w t m rs))
   \<and> \<not> list_ex is_initial_alert (snd (send_email w t m rs))
   \<and> (fst (send_email w t m rs) \<noteq> None \<longleftrightarrow> port_invalid w)"
  using smtp_deliver_kinds [of w _ t m rs]
  by (cases "smtp_port w")
     (auto simp: send_email_def port_invalid_def is_sms_escalation_def is_initial_alert_def)

lemma send_sms_kinds:
  "\<not> list_ex is_email_escalation (snd (send_sms cfg w m))
   \<and> list_ex is_sms_escalation (snd (send_sms cfg w m)) = is_sms_escalation (CallSms m)
   \<and> \<not> list_ex is_initial_alert (snd (send_sms cfg w m))"
proof -
  have tw: "\<not> list_ex is_email_escalation (snd (send_sms_twilio cfg w m))
     \<and> \<not> list_ex is_sms_escalation (snd (send_sms_twilio cfg w m))
     \<and> \<not> list_ex is_initial_alert (snd (send_sms_twilio cfg w m))"
    using twilio_loop_kinds by (simp add: send_sms_twilio_def)
  have gw: "\<not> list_ex is_email_escalation (snd (send_sms_email_gateway w m))
     \<and> \<not> list_ex is_sms_escalation (snd (send_sms_email_gateway w m))
     \<and> \<not> list_ex is_initial_alert (snd (send_sms_email_gateway w m))"
    using send_email_kinds [of w WatchdogAlert "First160 m"]
    by (simp add: send_sms_email_gateway_def is_email_escalation_def split: option.splits)
  show ?thesis
    using tw gw
    by (auto simp: send_sms_def is_email_escalation_def is_initial_alert_def split: prod.splits)
qed

lemma send_initial_alert_kinds:
  "\<not> list_ex is_email_escalation (snd (send_initial_alert cfg w r))
   \<and> \<not> list_ex is_sms_escalation (snd (send_initial_alert cfg w r))
   \<and> list_ex is_initial_alert (snd (send_initial_alert cfg w r))
       = (''slack'' \<in> set (get_default (r_alert_channels r) []))"
  using send_slack_kinds [of cfg w "AlertDown (r_name r)" "FailureMessage r 1" "''danger''"]
    send_slack_initial [of cfg w "r_name r" "FailureMessage r 1" "''danger''"]
  by (simp add: send_initial_alert_def Let_def)

lemma send_escalation_alert_kinds:
  "list_ex is_email_escalation (snd (send_escalation_alert cfg w r inc n)) = email_due cfg r n
   \<and> list_ex is_sms_escalation (snd (send_escalation_alert cfg w r inc n))
       = (sms_due cfg r n \<and> \<not> (email_due cfg r n \<and> port_invalid w))
   \<and> \<not> list_ex is_initial_alert (snd (send_escalation_alert cfg w r inc n))"
proof -
  let ?mail = "send_email w (Escalation (r_name r) n) (FailureMessage r n)
                 (get_default (email_recipients cfg) [])"
  let ?sms = "send_sms cfg w (CriticalMessage r n)"
  let ?first = "if email_due cfg r n then ?mail else (None, [])"
  let ?second = "if sms_due cfg r n then ?sms else (None, [])"
  have unfold: "send_escalation_alert cfg w r inc n
        = (case ?first of (Some e, ev) \<Rightarrow> (Some e, ev)
           | (None, ev) \<Rightarrow> (case ?second of (x, ev') \<Rightarrow> (x, ev @ ev')))"
    by (simp only: send_escalation_alert_def Let_def email_due_def sms_due_def)
  note m = send_email_kinds [of w "Escalation (r_name r) n" "FailureMessage r n" "get_default (email_recipients cfg) []"]
  note q = send_sms_kinds [of cfg w "CriticalMessage r n"]
  have me: "is_email_escalation (CallEmail (Escalation (r_name r) n) (FailureMessage r n)
              (get_default (email_recipients cfg) []))"
    by (simp add: is_email_escalation_def)
  have qe: "is_sms_escalation (CallSms (CriticalMessage r n))" by (simp add: is_sms_escalation_def)
  obtain x1 ev1 where f: "?first = (x1, ev1)" by (cases ?first)
  obtain x2 ev2 where g: "?second = (x2, ev2)" by (cases ?second)
  have f1: "list_ex is_email_escalation ev1 = email_due cfg r n"
    "\<not> list_ex is_sms_escalation ev1" "\<not> list_ex is_initial_alert ev1"
    "(x1 \<noteq> None) = (email_due cfg r n \<and> port_invalid w)"
    using f m me by (auto split: if_splits)
  have g1: "\<not> list_ex is_email_escalation ev2"
    "list_ex is_sms_escalation ev2 = sms_due cfg r n" "\<not> list_ex is_initial_alert ev2"
    using g q qe by (auto split: if_splits)
  show ?thesis
  proof (cases x1)
    case None
    then have "snd (send_escalation_alert cfg w r inc n) = ev1 @ ev2"
      unfolding unfold f g by simp
    then show ?thesis using f1 g1 None by auto
  next
    case (Some e)
    then have "snd (send_escalation_alert cfg w r inc n) = ev1"
      unfolding unfold f by simp
    then show ?thesis using f1 Some by auto
  qed
qed

lemma failure_step_events:
  assumes "faults s = []" "r_status r \<noteq> ''success''"
  shows "events_of (handle_result cfg w r s)
         = (case open_incident (r_target_id r) (incidents s) of
              None \<Rightarrow> snd (send_initial_alert cfg w r)
            | Some inc \<Rightarrow> snd (send_escalation_alert cfg w r inc (failure_count inc + 1)))"
proof (cases "open_incident (r_target_id r) (incidents s)")
  case None
  then show ?thesis using handle_result_create [OF assms(1) None assms(2), of cfg w]
    by (simp add: events_of_def)
next
  case (Some inc)
  then show ?thesis using handle_result_continue [OF assms(1) Some assms(2), of cfg w]
    by (simp add: events_of_def)
qed

lemma escalation_run:
  assumes "faults s = []" "open_incident tid (incidents s) = Some inc"
    "\<forall>x\<in>set steps. r_target_id (snd x) = tid \<and> r_status (snd x) \<noteq> ''success''"
  shows "\<forall>k<length steps. \<exists>inc'. handle_trace cfg steps s ! k
           = snd (send_escalation_alert cfg (fst (steps ! k)) (snd (steps ! k)) inc'
                    (failure_count inc + int k + 1))"
  using assms
proof (induction steps arbitrary: s inc)
  case Nil
  then show ?case by simp
next
  case (Cons step rest)
  obtain w r where step: "step = (w, r)" by (cases step)
  have r: "r_target_id r = tid" "r_status r \<noteq> ''success''" using Cons.prems(3) step by simp_all
  let ?s1 = "store_of (handle_result cfg w r s)"
  have op: "open_incident (r_target_id r) (incidents s) = Some inc" using Cons.prems(2) r(1) by simp
  have f1: "faults ?s1 = []" using Cons.prems(1) by (rule handle_result_faults)
  have ev: "events_of (handle_result cfg w r s)
            = snd (send_escalation_alert cfg w r inc (failure_count inc + 1))"
    using failure_step_events [OF Cons.prems(1) r(2), of cfg w] op by simp
  have st: "incidents ?s1 = update_where_id (inc_id inc) (continued_row (r_check_id r)) (incidents s)"
    using Cons.prems(1) op r(2) by (simp add: handle_result_store)
  have o1: "open_incident tid (incidents ?s1) = Some (continued_row (r_check_id r) inc)"
    unfolding st using Cons.prems(2) by (simp add: open_incident_update)
  have r1: "\<forall>x\<in>set rest. r_target_id (snd x) = tid \<and> r_status (snd x) \<noteq> ''success''"
    using Cons.prems(3) by simp
  note IH = Cons.IH [OF f1 o1 r1]
  show ?case
  proof (intro allI impI)
    fix k assume k: "k < length (step # rest)"
    show "\<exists>inc'. handle_trace cfg (step # rest) s ! k
           = snd (send_escalation_alert cfg (fst ((step # rest) ! k)) (snd ((step # rest) ! k)) inc'
                    (failure_count inc + int k + 1))"
    proof (cases k)
      case 0
      then show ?thesis using ev step by auto
    next
      case (Suc j)
      then have "j < length rest" using k by simp
      then obtain inc' where "handle_trace cfg rest ?s1 ! j
           = snd (send_escalation_alert cfg (fst (rest ! j)) (snd (rest ! j)) inc'
                    (failure_count (continued_row (r_check_id r) inc) + int j + 1))"
        using IH by blast
      then show ?thesis using Suc step by (auto simp: add.commute add.left_commute)
    qed
  qed
qed

text \<open>
  Claim C2, as amended. Take a run of consecutive non-success results of one target,
  handled from a store without an open incident for it and without failing statements.
  The \<open>k\<close>-th call (counted from 0) brings the failure count to \<open>k + 1\<close>. The email
  escalation is called in that step exactly when \<open>k + 1\<close> equals the email threshold
  (default 3), \<open>k + 1 \<ge> 2\<close>, \<^verbatim>\<open>email\<close> is among the alert channels of the result and email
  is enabled (default yes); so it is called at most once in the run, and never before or
  after the threshold. The same holds for SMS with its threshold (default 5) and its
  enabled flag (default no), unless the email escalation of the same step raised. The
  initial alert is called in step 0 only, and only when \<^verbatim>\<open>slack\<close> is among the channels.
  A threshold of 1 is never reached by the escalation: the first failure creates the
  incident and sends only the initial alert.
\<close>

theorem escalation_fires_at_threshold:
  assumes "faults s = []" "distinct (map inc_id (incidents s))"
    "open_incident tid (incidents s) = None"
    "\<forall>x\<in>set steps. r_target_id (snd x) = tid \<and> r_status (snd x) \<noteq> ''success''"
  shows "\<forall>k<length steps.
      (\<exists>inc. open_incident tid (incidents (handle_results cfg (take (Suc k) steps) s)) = Some inc
          \<and> failure_count inc = int k + 1)
    \<and> (list_ex is_email_escalation (handle_trace cfg steps s ! k)
         \<longleftrightarrow> 1 \<le> k \<and> email_due cfg (snd (steps ! k)) (int k + 1))
    \<and> (list_ex is_sms_escalation (handle_trace cfg steps s ! k)
         \<longleftrightarrow> 1 \<le> k \<and> sms_due cfg (snd (steps ! k)) (int k + 1)
             \<and> \<not> (email_due cfg (snd (steps ! k)) (int k + 1) \<and> port_invalid (fst (steps ! k))))
    \<and> (list_ex is_initial_alert (handle_trace cfg steps s ! k)
         \<longleftrightarrow> k = 0 \<and> ''slack'' \<in> set (get_default (r_alert_channels (snd (steps ! k))) []))"
proof (intro allI impI)
  fix k assume k: "k < length steps"
  have pre: "\<forall>x\<in>set (take (Suc k) steps). r_target_id (snd x) = tid \<longrightarrow> r_status (snd x) \<noteq> ''success''"
    using assms(4) by (meson in_set_takeD)
  have all_mine: "filter (\<lambda>x. r_target_id (snd x) = tid) (take (Suc k) steps) = take (Suc k) steps"
    using assms(4) by (auto simp: filter_id_conv dest: in_set_takeD)
  have len: "length (take (Suc k) steps) = Suc k" using k by simp
  have oc0: "open_count tid (incidents s) = 0" using assms(3) by (simp add: open_count_def)
  have count: "\<exists>inc. open_incident tid (incidents (handle_results cfg (take (Suc k) steps) s)) = Some inc
          \<and> failure_count inc = int k + 1"
    using failure_run [OF assms(1,2) pre, of cfg] all_mine len oc0 by auto
  obtain w r rest where steps: "steps = (w, r) # rest" using k by (cases steps) auto
  have r: "r_target_id r = tid" "r_status r \<noteq> ''success''" using assms(4) steps by simp_all
  have op: "open_incident (r_target_id r) (incidents s) = None" using assms(3) r(1) by simp
  let ?s1 = "store_of (handle_result cfg w r s)"
  have ev0: "events_of (handle_result cfg w r s) = snd (send_initial_alert cfg w r)"
    using failure_step_events [OF assms(1) r(2), of cfg w] op by simp
  show "(\<exists>inc. open_incident tid (incidents (handle_results cfg (take (Suc k) steps) s)) = Some inc
          \<and> failure_count inc = int k + 1)
    \<and> (list_ex is_email_escalation (handle_trace cfg steps s ! k)
         \<longleftrightarrow> 1 \<le> k \<and> email_due cfg (snd (steps ! k)) (int k + 1))
    \<and> (list_ex is_sms_escalation (handle_trace cfg steps s ! k)
         \<longleftrightarrow> 1 \<le> k \<and> sms_due cfg (snd (steps ! k)) (int k + 1)
             \<and> \<not> (email_due cfg (snd (steps ! k)) (int k + 1) \<and> port_invalid (fst (steps ! k))))
    \<and> (list_ex is_initial_alert (handle_trace cfg steps s ! k)
         \<longleftrightarrow> k = 0 \<and> ''slack'' \<in> set (get_default (r_alert_channels (snd (steps ! k))) []))"
  proof (cases k)
    case 0
    then show ?thesis using count ev0 steps send_initial_alert_kinds [of cfg w r] by simp
  next
    case (Suc j)
    then have j: "j < length rest" using k steps by simp
    have f1: "faults ?s1 = []" using assms(1) by (rule handle_result_faults)
    obtain inc1 where inc1: "open_incident tid (incidents ?s1) = Some inc1" "failure_count inc1 = 1"
      using own_failure_step [OF assms(1) r(2), of cfg w] r(1) oc0 by auto
    have r1: "\<forall>x\<in>set rest. r_target_id (snd x) = tid \<and> r_status (snd x) \<noteq> ''success''"
      using assms(4) steps by simp
    obtain inc' where tr: "handle_trace cfg rest ?s1 ! j
        = snd (send_escalation_alert cfg (fst (rest ! j)) (snd (rest ! j)) inc' (failure_count inc1 + int j + 1))"
      using escalation_run [OF f1 inc1(1) r1, of cfg] j by blast
    have n: "failure_count inc1 + int j + 1 = int k + 1" using inc1(2) Suc by simp
    have "handle_trace cfg steps s ! k
        = snd (send_escalation_alert cfg (fst (steps ! k)) (snd (steps ! k)) inc' (int k + 1))"
      using tr n steps Suc by simp
    then show ?thesis
      using count Suc send_escalation_alert_kinds [of cfg "fst (steps ! k)" "snd (steps ! k)" inc' "int k + 1"]
      by simp
  qed
qed

text \<open>
  The claim as stated fails for a threshold of 1: with \<^verbatim>\<open>escalate_after: 1\<close> for email,
  email enabled and listed, the first failure brings the failure count to 1 and three
  consecutive failures call no sender at all.
\<close>

theorem escalation_at_threshold_one_counterexample:
  "get_default (email_escalate_after threshold_one_config) 3 = 1
   \<and> get_default (email_enabled threshold_one_config) True
   \<and> r_alert_channels email_only_result = Some [''email'']
   \<and> r_status email_only_result = ''failure''
   \<and> map failure_count (incidents (handle_results threshold_one_config
          [(quiet_world, email_only_result)] empty_store)) = [1]
   \<and> concat (handle_trace threshold_one_config
          (replicate 3 (quiet_world, email_only_result)) empty_store) = []"
  by code_simp

text \<open>
  The scenario of the spec: thresholds 3 and 5, all three channels listed and enabled,
  five consecutive failures: the initial alert in the first call, the email escalation
  in the third, the SMS escalation in the fifth, and nowhere else.
\<close>

theorem escalation_fires_at_threshold_witness:
  "faults empty_store = [] \<and> distinct (map inc_id (incidents empty_store))
   \<and> open_incident 1 (incidents empty_store) = None
   \<and> map (\<lambda>x. (r_target_id (snd x), r_status (snd x))) (replicate 5 (quiet_world, failing_result))
       = replicate 5 (1, ''failure'')
   \<and> list_ex is_initial_alert
        (handle_trace scenario_config (replicate 5 (quiet_world, failing_result)) empty_store ! 0)
   \<and> list_ex is_email_escalation
        (handle_trace scenario_config (replicate 5 (quiet_world, failing_result)) empty_store ! 2)
   \<and> list_ex is_sms_escalation
        (handle_trace scenario_config (replicate 5 (quiet_world, failing_result)) empty_store ! 4)
   \<and> map (list_ex is_initial_alert)
        (handle_trace scenario_config (replicate 5 (quiet_world, failing_result)) empty_store)
       = [True, False, False, False, False]
   \<and> map (list_ex is_email_escalation)
        (handle_trace scenario_config (replicate 5 (quiet_world, failing_result)) empty_store)
       = [False, False, True, False, False]
   \<and> map (list_ex is_sms_escalation)
        (handle_trace scenario_config (replicate 5 (quiet_world, failing_result)) empty_store)
       = [False, False, False, False, True]"
proof -
  have h1: "faults empty_store = []" by (simp add: empty_store_def)
  have h2: "distinct (map inc_id (incidents empty_store))" by (simp add: empty_store_def)
  have h3: "open_incident 1 (incidents empty_store) = None"
    by (simp add: empty_store_def open_incident_def open_rows_def)
  have h4: "\<forall>x\<in>set (replicate 5 (quiet_world, failing_result)).
              r_target_id (snd x) = 1 \<and> r_status (snd x) \<noteq> ''success''"
    by (simp add: failing_result_def)
  have h4': "map (\<lambda>x. (r_target_id (snd x), r_status (snd x))) (replicate 5 (quiet_world, failing_result))
       = replicate 5 (1, ''failure'')"
    by (simp add: failing_result_def)
  note inst = escalation_fires_at_threshold [OF h1 h2 h3 h4, of scenario_config]
  have due: "email_due scenario_config failing_result 3" "sms_due scenario_config failing_result 5"
    "\<not> email_due scenario_config failing_result 5"
    "''slack'' \<in> set (get_default (r_alert_channels failing_result) [])"
    by (simp_all add: email_due_def sms_due_def scenario_config_def failing_result_def get_default_def)
  have k0: "list_ex is_initial_alert
        (handle_trace scenario_config (replicate 5 (quiet_world, failing_result)) empty_store ! 0)"
    using inst [THEN spec, of 0] due by simp
  have k2: "list_ex is_email_escalation
        (handle_trace scenario_config (replicate 5 (quiet_world, failing_result)) empty_store ! 2)"
    using inst [THEN spec, of 2] due by simp
  have k4: "list_ex is_sms_escalation
        (handle_trace scenario_config (replicate 5 (quiet_world, failing_result)) empty_store ! 4)"
    using inst [THEN spec, of 4] due by simp
  have full: "map (list_ex is_initial_alert)
        (handle_trace scenario_config (replicate 5 (quiet_world, failing_result)) empty_store)
       = [True, False, False, False, False]
   \<and> map (list_ex is_email_escalation)
        (handle_trace scenario_config (replicate 5 (quiet_world, failing_result)) empty_store)
       = [False, False, True, False, False]
   \<and> map (list_ex is_sms_escalation)
        (handle_trace scenario_config (replicate 5 (quiet_world, failing_result)) empty_store)
       = [False, False, False, False, True]"
    by code_simp
  show ?thesis using h1 h2 h3 h4' k0 k2 k4 full by blast
qed

section \<open>Classification of probe outcomes\<close>

lemma take_length_prefix: "take (length xs) zs = xs \<longleftrightarrow> (\<exists>q. zs = xs @ q)"
proof
  assume "take (length xs) zs = xs"
  then have "zs = xs @ drop (length xs) zs" by (metis append_take_drop_id)
  then show "\<exists>q. zs = xs @ q" ..
next
  assume "\<exists>q. zs = xs @ q"
  then show "take (length xs) zs = xs" by auto
qed

lemma substring_in_iff: "substring_in needle hay \<longleftrightarrow> (\<exists>p q. hay = p @ needle @ q)"
proof (induction hay)
  case Nil
  then show ?case by auto
next
  case (Cons c cs)
  show ?case
  proof
    assume "substring_in needle (c # cs)"
    then consider "take (length needle) (c # cs) = needle" | "substring_in needle cs" by auto
    then show "\<exists>p q. c # cs = p @ needle @ q"
    proof cases
      case 1
      then obtain q where "c # cs = needle @ q" using take_length_prefix by blast
      then have "c # cs = [] @ needle @ q" by simp
      then show ?thesis by blast
    next
      case 2
      then obtain p q where "cs = p @ needle @ q" using Cons.IH by blast
      then have "c # cs = (c # p) @ needle @ q" by simp
      then show ?thesis by blast
    qed
  next
    assume "\<exists>p q. c # cs = p @ needle @ q"
    then obtain p q where pq: "c # cs = p @ needle @ q" by blast
    show "substring_in needle (c # cs)"
    proof (cases p)
      case Nil
      then have "take (length needle) (c # cs) = needle" using pq take_length_prefix [of needle "c # cs"] by auto
      then show ?thesis by simp
    next
      case (Cons a p')
      then have "cs = p' @ needle @ q" using pq by simp
      then have "substring_in needle cs" using Cons.IH by blast
      then show ?thesis by simp
    qed
  qed
qed

lemma record_check_ok:
  "faults s = [] \<Longrightarrow> record_check tid st sc rt em s
     = (Inr (next_rowid (map c_id (checks s))),
        s\<lparr>checks := checks s @ [\<lparr>c_id = next_rowid (map c_id (checks s)), c_target_id = tid,
             c_status = st, c_status_code = sc, c_response_time = rt, c_error_message = em\<rparr>]\<rparr>)"
  by (simp add: record_check_def execute_no_fault Let_def)

text \<open>
  The classification when the store accepts the insert: \<^verbatim>\<open>check_target\<close> returns one
  result, records it in \<^verbatim>\<open>checks\<close>, and classifies the probe in this order: a timeout gives
  \<^verbatim>\<open>timeout\<close> with the message \<^verbatim>\<open>Timeout after {timeout}s\<close>; any other exception gives
  \<^verbatim>\<open>error\<close> with its description; a response with another status code than expected gives
  \<^verbatim>\<open>failure\<close> with \<^verbatim>\<open>Expected {expected}, got {actual}\<close>; a response with the expected code
  whose body does not contain the required (non-empty) substring gives \<^verbatim>\<open>failure\<close> with
  \<^verbatim>\<open>Expected content '{substring}' not found\<close>; anything else gives \<^verbatim>\<open>success\<close> without a
  message. The response time and the status code are present for a response and absent
  for a timeout and an error.
\<close>

lemma classification_when_insert_succeeds:
  assumes "faults s = []"
  shows "\<exists>r. fst (check_target t probe s) = Inr r
     \<and> r_target_id r = t_id t \<and> r_alert_channels r = Some (t_alert_channels t)
     \<and> checks (snd (check_target t probe s))
         = checks s @ [\<lparr>c_id = r_check_id r, c_target_id = t_id t, c_status = r_status r,
              c_status_code = r_status_code r, c_response_time = r_response_time r,
              c_error_message = r_error_message r\<rparr>]
     \<and> (case probe of
           TimedOut \<Rightarrow>
             r_status r = ''timeout''
             \<and> r_error_message r = Some (''Timeout after '' @ str_int (t_timeout t) @ ''s'')
             \<and> r_response_time r = None \<and> r_status_code r = None
         | Failed description \<Rightarrow>
             r_status r = ''error'' \<and> r_error_message r = Some description
             \<and> r_response_time r = None \<and> r_status_code r = None
         | Response code body elapsed \<Rightarrow>
             r_response_time r = Some elapsed \<and> r_status_code r = Some code
             \<and> (if code \<noteq> t_expected_status t then
                    r_status r = ''failure''
                    \<and> r_error_message r
                        = Some (''Expected '' @ str_int (t_expected_status t) @ '', got '' @ str_int code)
                  else if \<exists>c. t_contains t = Some c \<and> c \<noteq> [] \<and> \<not> (\<exists>p q. body = p @ c @ q) then
                    r_status r = ''failure''
                    \<and> r_error_message r
                        = Some (''Expected content '' @ [CHR 0x27] @ get_default (t_contains t) [] @ [CHR 0x27]
                                @ '' not found'')
                  else r_status r = ''success'' \<and> r_error_message r = None))"
proof (cases probe)
  case TimedOut
  then show ?thesis using assms
    by (simp add: check_target_def on_timeout_def Let_def record_check_ok)
next
  case (Failed description)
  then show ?thesis using assms
    by (simp add: check_target_def on_exception_def record_check_ok)
next
  case (Response code body elapsed)
  have cond: "(truthy (t_contains t) \<and> \<not> substring_in (get_default (t_contains t) []) body)
        = (\<exists>c. t_contains t = Some c \<and> c \<noteq> [] \<and> \<not> (\<exists>p q. body = p @ c @ q))"
    by (cases "t_contains t") (simp_all add: truthy_def get_default_def substring_in_iff)
  consider (mismatch) "code \<noteq> t_expected_status t"
    | (content) "code = t_expected_status t"
        "truthy (t_contains t) \<and> \<not> substring_in (get_default (t_contains t) []) body"
    | (good) "code = t_expected_status t"
        "\<not> (truthy (t_contains t) \<and> \<not> substring_in (get_default (t_contains t) []) body)"
    by blast
  then show ?thesis
  proof cases
    case mismatch
    then show ?thesis using Response assms
      by (simp add: check_target_def Let_def record_check_ok)
  next
    case content
    then show ?thesis using Response assms cond
      by (simp add: check_target_def Let_def record_check_ok)
  next
    case good
    then show ?thesis using Response assms cond
      by (simp add: check_target_def Let_def record_check_ok)
  qed
qed

lemma classification_scenario:
  "faults empty_store = []
   \<and> map_sum id (\<lambda>r. (r_status r, r_error_message r, r_response_time r))
         (fst (check_target health_target TimedOut empty_store))
       = Inr (''timeout'', Some ''Timeout after 10s'', None)
   \<and> map_sum id (\<lambda>r. (r_status r, r_error_message r))
         (fst (check_target health_target (Response 200 ''Status: healthy'' 12) empty_store))
       = Inr (''success'', None)
   \<and> map_sum id (\<lambda>r. (r_status r, r_error_message r))
         (fst (check_target health_target (Response 200 ''Status: degraded'' 12) empty_store))
       = Inr (''failure'', Some (''Expected content '' @ [CHR 0x27] @ ''healthy'' @ [CHR 0x27] @ '' not found''))
   \<and> map_sum id (\<lambda>r. (r_status r, r_error_message r))
         (fst (check_target health_target (Response 500 ''Internal Server Error'' 12) empty_store))
       = Inr (''failure'', Some ''Expected 200, got 500'')"
proof -
  have h: "faults empty_store = []" by (simp add: empty_store_def)
  have ten: "str_int (t_timeout health_target) = ''10''" by code_simp
  obtain r where r: "fst (check_target health_target TimedOut empty_store) = Inr r"
    "r_status r = ''timeout''"
    "r_error_message r = Some (''Timeout after '' @ str_int (t_timeout health_target) @ ''s'')"
    "r_response_time r = None"
    using classification_when_insert_succeeds [OF h, of health_target TimedOut] by auto
  have c1: "map_sum id (\<lambda>r. (r_status r, r_error_message r, r_response_time r))
         (fst (check_target health_target TimedOut empty_store))
       = Inr (''timeout'', Some ''Timeout after 10s'', None)"
    using r ten by simp
  have rest: "map_sum id (\<lambda>r. (r_status r, r_error_message r))
         (fst (check_target health_target (Response 200 ''Status: healthy'' 12) empty_store))
       = Inr (''success'', None)
   \<and> map_sum id (\<lambda>r. (r_status r, r_error_message r))
         (fst (check_target health_target (Response 200 ''Status: degraded'' 12) empty_store))
       = Inr (''failure'', Some (''Expected content '' @ [CHR 0x27] @ ''healthy'' @ [CHR 0x27] @ '' not found''))
   \<and> map_sum id (\<lambda>r. (r_status r, r_error_message r))
         (fst (check_target health_target (Response 500 ''Internal Server Error'' 12) empty_store))
       = Inr (''failure'', Some ''Expected 200, got 500'')"
    by code_simp
  show ?thesis using h c1 rest by blast
qed

text \<open>
  Claim C5. The claim fails on the code when the insert of \<^verbatim>\<open>record_check\<close> fails: that
  call is inside the \<^verbatim>\<open>try\<close> block of \<^verbatim>\<open>check_target\<close>, so \<^verbatim>\<open>except Exception\<close> takes the
  error of the store for an error of the probe. A probe that completed with the expected
  status 200 and the body \<^verbatim>\<open>Status: healthy\<close> is then returned and recorded as \<^verbatim>\<open>error\<close>,
  with the message of the store and without status code and response time, where the
  claim says \<^verbatim>\<open>success\<close> without a message. In the handlers for a timeout and for another
  exception the same error of the store leaves \<^verbatim>\<open>check_target\<close>.
\<close>

theorem check_target_store_error_taken_for_probe_error:
  "check_target health_target (Response 200 ''Status: healthy'' 12) flaky_store
     = (Inr \<lparr>r_target_id = 1, r_name = ''api'', r_status = ''error'', r_status_code = None,
             r_response_time = None, r_error_message = Some ''database is locked'',
             r_check_id = 1, r_alert_channels = Some [''slack'', ''email'']\<rparr>,
        \<lparr>targets = [],
          checks = [\<lparr>c_id = 1, c_target_id = 1, c_status = ''error'', c_status_code = None,
                     c_response_time = None, c_error_message = Some ''database is locked''\<rparr>],
          incidents = [], faults = []\<rparr>)
   \<and> fst (check_target health_target TimedOut flaky_store)
       = Inl (SqliteError ''database is locked'')
   \<and> fst (check_target health_target (Failed ''Connection refused'') flaky_store)
       = Inl (SqliteError ''database is locked'')"
  by (simp add: check_target_def on_exception_def on_timeout_def record_check_def execute_def
        flaky_store_def health_target_def next_rowid_def truthy_def get_default_def Let_def)

section \<open>The open incident of a target\<close>

lemma fold_later_row_max:
  "started_at b \<le> started_at (fold later_row rows b)
   \<and> (\<forall>j\<in>set rows. started_at j \<le> started_at (fold later_row rows b))"
proof (induction rows arbitrary: b)
  case Nil
  then show ?case by simp
next
  case (Cons x xs)
  have b: "started_at b \<le> started_at (later_row x b)" "started_at x \<le> started_at (later_row x b)"
    by (simp_all add: later_row_def)
  have "started_at (later_row x b) \<le> started_at (fold later_row xs (later_row x b))"
    "\<forall>j\<in>set xs. started_at j \<le> started_at (fold later_row xs (later_row x b))"
    using Cons.IH [of "later_row x b"] by simp_all
  then show ?case using b by auto
qed

lemma pick_latest_max:
  "pick_latest rows = Some i \<Longrightarrow> \<forall>j\<in>set rows. started_at j \<le> started_at i"
  using fold_later_row_max by (cases rows) auto

text \<open>
  Claim C7, as amended. \<^verbatim>\<open>get_open_incident\<close> changes no row and returns absent exactly
  when the target has no open incident; otherwise it returns an open incident of the
  target whose \<open>started_at\<close> is the greatest among them, also when there are several. The
  only exception that leaves it is an error of the SQLite driver: more than one open
  incident is not detected.
\<close>

theorem get_open_incident_picks_latest:
  "(case fst (get_open_incident tid s) of
      Inl e \<Rightarrow> (\<exists>m rest. faults s = Some m # rest \<and> e = SqliteError m)
    | Inr None \<Rightarrow> open_rows tid (incidents s) = []
    | Inr (Some i) \<Rightarrow>
        i \<in> set (open_rows tid (incidents s))
        \<and> (\<forall>j\<in>set (open_rows tid (incidents s)). started_at j \<le> started_at i))
   \<and> incidents (snd (get_open_incident tid s)) = incidents s"
proof -
  let ?f = "\<lambda>s. (open_incident tid (incidents s), s)"
  from execute_cases [of s ?f] show ?thesis
  proof
    assume "\<exists>m rest. faults s = Some m # rest \<and> execute s ?f = (Inl (SqliteError m), s\<lparr>faults := rest\<rparr>)"
    then show ?thesis by (auto simp: get_open_incident_def)
  next
    assume "execute s ?f = (Inr (fst (?f (s\<lparr>faults := tl (faults s)\<rparr>))), snd (?f (s\<lparr>faults := tl (faults s)\<rparr>)))"
    then have g: "get_open_incident tid s = (Inr (open_incident tid (incidents s)), s\<lparr>faults := tl (faults s)\<rparr>)"
      by (simp add: get_open_incident_def)
    show ?thesis
    proof (cases "open_incident tid (incidents s)")
      case None
      have "open_rows tid (incidents s) = []" using None by (simp add: open_incident_None)
      then show ?thesis using g None by simp
    next
      case (Some i)
      then have p: "pick_latest (open_rows tid (incidents s)) = Some i" by (simp add: open_incident_def)
      show ?thesis using g Some pick_latest_mem [OF p] pick_latest_max [OF p] by simp
    qed
  qed
qed

text \<open>
  The claim as stated fails: with two open incidents for the target, the call returns
  the later one as if it were the only one, and raises nothing.
\<close>

theorem get_open_incident_two_open_counterexample:
  "length (open_rows 1 (incidents two_open_store)) = 2
   \<and> fst (get_open_incident 1 two_open_store) = Inr (Some second_open_row)"
  by (simp add: two_open_store_def open_rows_def first_open_row_def second_open_row_def
        get_open_incident_def execute_def open_incident_def later_row_def)

theorem get_open_incident_picks_latest_witness:
  "open_rows 1 (incidents two_open_store) = [first_open_row, second_open_row]
   \<and> (\<exists>i. fst (get_open_incident 1 two_open_store) = Inr (Some i) \<and> 20 \<le> started_at i)
   \<and> incidents (snd (get_open_incident 1 two_open_store)) = incidents two_open_store"
proof -
  have rows: "open_rows 1 (incidents two_open_store) = [first_open_row, second_open_row]"
    by (simp add: two_open_store_def open_rows_def first_open_row_def second_open_row_def)
  have nf: "faults two_open_store = []" by (simp add: two_open_store_def)
  have s2: "started_at second_open_row = 20" by (simp add: second_open_row_def)
  note inst = get_open_incident_picks_latest [where tid = 1 and s = two_open_store]
  show ?thesis
  proof (cases "fst (get_open_incident 1 two_open_store)")
    case (Inl e)
    then show ?thesis using inst nf by simp
  next
    case (Inr io)
    show ?thesis
    proof (cases io)
      case None
      then show ?thesis using inst Inr rows by simp
    next
      case (Some i)
      then have "started_at second_open_row \<le> started_at i" using inst Inr rows by simp
      then show ?thesis using inst Inr Some rows s2 by simp
    qed
  qed
qed

section \<open>The run over all targets\<close>

lemma run_loop_append:
  "run_loop cfg env (pre @ post) s =
     (case run_loop cfg env pre s of
        (Some e, s1, ev) \<Rightarrow> (Some e, s1, ev)
      | (None, s1, ev) \<Rightarrow> (case run_loop cfg env post s1 of (x, s2, ev') \<Rightarrow> (x, s2, ev @ ev')))"
proof (induction pre arbitrary: s)
  case Nil
  then show ?case by (simp split: prod.splits)
next
  case (Cons t ts)
  show ?case
  proof (cases "check_target t (fst (env t)) s")
    case (Pair c s1)
    show ?thesis
    proof (cases c)
      case (Inl e)
      then show ?thesis using Pair by simp
    next
      case (Inr r)
      obtain x s2 ev where h: "handle_result cfg (snd (env t)) r s1 = (x, s2, ev)"
        by (cases "handle_result cfg (snd (env t)) r s1")
      show ?thesis
      proof (cases x)
        case (Some e)
        then show ?thesis using Pair Inr h by simp
      next
        case None
        then show ?thesis using Pair Inr h Cons.IH [of s2]
          by (auto split: prod.splits option.splits)
      qed
    qed
  qed
qed

text \<open>
  Claim C8, as amended. The loop of \<^verbatim>\<open>run_checks\<close> has no exception handler. If an
  exception leaves \<^verbatim>\<open>check_target\<close> or \<^verbatim>\<open>handle_result\<close> while the targets \<open>pre\<close> are
  processed, the run ends there with that exception: whatever targets \<open>post\<close> follow,
  the result and the store are those of \<open>pre\<close> alone. Without an exception the loop goes
  on with \<open>post\<close> from the store that \<open>pre\<close> left. When the store cannot be opened,
  \<^verbatim>\<open>run_checks\<close> raises before it reads any target and changes nothing.
\<close>

theorem run_checks_stops_at_first_exception:
  "(raised (run_loop cfg env pre s) \<noteq> None
      \<longrightarrow> run_loop cfg env (pre @ post) s = run_loop cfg env pre s)
   \<and> (raised (run_loop cfg env pre s) = None
      \<longrightarrow> run_loop cfg env (pre @ post) s
          = (raised (run_loop cfg env post (store_of (run_loop cfg env pre s))),
             store_of (run_loop cfg env post (store_of (run_loop cfg env pre s))),
             events_of (run_loop cfg env pre s)
               @ events_of (run_loop cfg env post (store_of (run_loop cfg env pre s)))))
   \<and> run_checks cfg env False s = (Some (SqliteError ''unable to open database file''), s, [])
   \<and> (fst (get_active_targets s) = Inr active \<and> active \<noteq> []
      \<longrightarrow> run_checks cfg env True s = run_loop cfg env active (snd (get_active_targets s)))"
proof (intro conjI impI)
  assume "raised (run_loop cfg env pre s) \<noteq> None"
  then show "run_loop cfg env (pre @ post) s = run_loop cfg env pre s"
    unfolding run_loop_append [of cfg env pre post s]
    by (cases "run_loop cfg env pre s") (auto simp: raised_def)
next
  assume "raised (run_loop cfg env pre s) = None"
  then show "run_loop cfg env (pre @ post) s
          = (raised (run_loop cfg env post (store_of (run_loop cfg env pre s))),
             store_of (run_loop cfg env post (store_of (run_loop cfg env pre s))),
             events_of (run_loop cfg env pre s)
               @ events_of (run_loop cfg env post (store_of (run_loop cfg env pre s))))"
    unfolding run_loop_append [of cfg env pre post s]
    by (cases "run_loop cfg env pre s")
       (auto simp: raised_def store_of_def events_of_def split: prod.splits)
next
  show "run_checks cfg env False s = (Some (SqliteError ''unable to open database file''), s, [])"
    by (simp add: run_checks_def)
next
  assume "fst (get_active_targets s) = Inr active \<and> active \<noteq> []"
  then show "run_checks cfg env True s = run_loop cfg env active (snd (get_active_targets s))"
    by (cases "get_active_targets s") (simp add: run_checks_def)
qed

text \<open>
  The claim as stated fails: the store is open, one statement of the first target's
  \<^verbatim>\<open>handle_result\<close> fails, and the second target is never probed (no check row for it),
  although every later statement would have succeeded.
\<close>

theorem run_checks_persistence_error_counterexample:
  "map t_id (filter t_enabled (targets locked_store)) = [1, 2]
   \<and> raised (run_checks default_config all_down True locked_store)
       = Some (SqliteError ''database is locked'')
   \<and> map c_target_id (checks (store_of (run_checks default_config all_down True locked_store))) = [1]
   \<and> faults (store_of (run_checks default_config all_down True locked_store)) = []
   \<and> map c_target_id (checks (store_of (run_checks default_config all_down True
          (locked_store\<lparr>faults := []\<rparr>)))) = [1, 2]"
  by code_simp

theorem run_checks_stops_at_first_exception_witness:
  "raised (run_loop default_config all_down [health_target] (locked_store\<lparr>faults := [None, Some ''database is locked'']\<rparr>))
     = Some (SqliteError ''database is locked'')
   \<and> run_loop default_config all_down ([health_target] @ [second_target])
         (locked_store\<lparr>faults := [None, Some ''database is locked'']\<rparr>)
       = run_loop default_config all_down [health_target]
         (locked_store\<lparr>faults := [None, Some ''database is locked'']\<rparr>)"
proof -
  have r: "raised (run_loop default_config all_down [health_target]
             (locked_store\<lparr>faults := [None, Some ''database is locked'']\<rparr>))
     = Some (SqliteError ''database is locked'')"
    by code_simp
  then have "raised (run_loop default_config all_down [health_target]
             (locked_store\<lparr>faults := [None, Some ''database is locked'']\<rparr>)) \<noteq> None" by simp
  then show ?thesis
    using r run_checks_stops_at_first_exception [where cfg = default_config and env = all_down
        and pre = "[health_target]" and post = "[second_target]"
        and s = "locked_store\<lparr>faults := [None, Some ''database is locked'']\<rparr>"]
    by blast
qed

section \<open>Marking alert columns\<close>

lemma mark_alert_sent_known:
  assumes "c \<in> set [''slack'', ''email'', ''sms'']"
  shows "alert_column c \<in> set [''slack_alerted'', ''email_alerted'', ''sms_alerted'']
     \<and> mark_alert_sent iid c s
         = execute s (\<lambda>s. ((), s\<lparr>incidents :=
              update_where_id iid (column_setter (alert_column c)) (incidents s)\<rparr>))"
proof -
  have s1: "column_setter ''slack_alerted'' = (\<lambda>i. i\<lparr>slack_alerted := 1\<rparr>)"
    and s2: "column_setter ''email_alerted'' = (\<lambda>i. i\<lparr>email_alerted := 1\<rparr>)"
    and s3: "column_setter ''sms_alerted'' = (\<lambda>i. i\<lparr>sms_alerted := 1\<rparr>)"
    by (simp_all add: column_setter_def fun_eq_iff)
  consider "c = ''slack''" | "c = ''email''" | "c = ''sms''" using assms by auto
  then show ?thesis
  proof cases
    case 1
    then show ?thesis by (simp add: mark_alert_sent_def alert_column_def s1)
  next
    case 2
    then show ?thesis by (simp add: mark_alert_sent_def alert_column_def s2)
  next
    case 3
    then show ?thesis by (simp add: mark_alert_sent_def alert_column_def s3)
  qed
qed

lemma mark_channels_filter:
  "mark_channels iid chans s
   = mark_channels iid (filter (\<lambda>c. c \<in> set [''slack'', ''email'', ''sms'']) chans) s"
proof (induction chans arbitrary: s)
  case Nil
  then show ?case by simp
next
  case (Cons c cs)
  show ?case
  proof (cases "c \<in> set [''slack'', ''email'', ''sms'']")
    case True
    then show ?thesis using Cons.IH by (auto split: prod.splits sum.splits)
  next
    case False
    then show ?thesis using Cons.IH by simp
  qed
qed

text \<open>
  Claim C9. The loop of \<^verbatim>\<open>handle_result\<close> calls \<^verbatim>\<open>mark_alert_sent\<close> only for channels among
  \<^verbatim>\<open>slack\<close>, \<^verbatim>\<open>email\<close>, \<^verbatim>\<open>sms\<close>. For each of them the interpolated column is one of
  \<^verbatim>\<open>slack_alerted\<close>, \<^verbatim>\<open>email_alerted\<close>, \<^verbatim>\<open>sms_alerted\<close>, and the call is the update of that
  column. The loop does the same on a channel list as on the list without the other
  channels: they are skipped without an error and never marked. When no statement fails
  the loop raises nothing, and the incident that \<^verbatim>\<open>handle_result\<close> creates ends with
  exactly the columns of the listed channels set.
\<close>

theorem marked_columns_are_alert_columns:
  "(\<forall>c\<in>set chans. c \<in> set [''slack'', ''email'', ''sms''] \<longrightarrow>
       alert_column c \<in> set [''slack_alerted'', ''email_alerted'', ''sms_alerted'']
       \<and> (\<forall>s'. mark_alert_sent iid c s'
              = execute s' (\<lambda>s. ((), s\<lparr>incidents :=
                   update_where_id iid (column_setter (alert_column c)) (incidents s)\<rparr>))))
   \<and> mark_channels iid chans s
       = mark_channels iid (filter (\<lambda>c. c \<in> set [''slack'', ''email'', ''sms'']) chans) s
   \<and> (faults s = [] \<longrightarrow>
        mark_channels iid chans s
        = (None, s\<lparr>incidents := update_where_id iid (mark_row chans) (incidents s)\<rparr>))
   \<and> (faults s = [] \<and> open_incident (r_target_id r) (incidents s) = None
        \<and> r_status r \<noteq> ''success'' \<longrightarrow>
        raised (handle_result cfg w r s) = None
        \<and> incidents (store_of (handle_result cfg w r s))
            = incidents s @ [mark_row (get_default (r_alert_channels r) [''slack''])
                (new_incident (clock w) (next_rowid (map inc_id (incidents s)))
                   (r_target_id r) (r_check_id r))])"
proof (intro conjI ballI impI allI)
  fix c assume "c \<in> set [''slack'', ''email'', ''sms'']"
  then show "alert_column c \<in> set [''slack_alerted'', ''email_alerted'', ''sms_alerted'']"
    using mark_alert_sent_known by blast
next
  fix c s' assume "c \<in> set [''slack'', ''email'', ''sms'']"
  then show "mark_alert_sent iid c s'
              = execute s' (\<lambda>s. ((), s\<lparr>incidents :=
                   update_where_id iid (column_setter (alert_column c)) (incidents s)\<rparr>))"
    using mark_alert_sent_known by blast
next
  show "mark_channels iid chans s
       = mark_channels iid (filter (\<lambda>c. c \<in> set [''slack'', ''email'', ''sms'']) chans) s"
    by (rule mark_channels_filter)
next
  assume "faults s = []"
  then show "mark_channels iid chans s
        = (None, s\<lparr>incidents := update_where_id iid (mark_row chans) (incidents s)\<rparr>)"
    by (rule mark_channels_ok)
next
  assume a: "faults s = [] \<and> open_incident (r_target_id r) (incidents s) = None
        \<and> r_status r \<noteq> ''success''"
  then have h: "handle_result cfg w r s
         = (None,
            s\<lparr>incidents := incidents s
                 @ [mark_row (get_default (r_alert_channels r) [''slack''])
                      (new_incident (clock w) (next_rowid (map inc_id (incidents s)))
                         (r_target_id r) (r_check_id r))]\<rparr>,
            snd (send_initial_alert cfg w r))"
    using handle_result_create [of s r cfg w] by simp
  show "raised (handle_result cfg w r s) = None" unfolding h by (simp add: raised_def)
  show "incidents (store_of (handle_result cfg w r s))
            = incidents s @ [mark_row (get_default (r_alert_channels r) [''slack''])
                (new_incident (clock w) (next_rowid (map inc_id (incidents s)))
                   (r_target_id r) (r_check_id r))]"
    unfolding h by (simp add: store_of_def)
qed

theorem marked_columns_are_alert_columns_witness:
  "faults open_store = []
   \<and> mark_channels 1 [''pagerduty'', ''sms'', ''slack; DROP TABLE incidents''] open_store
       = (None, open_store\<lparr>incidents := [open_row\<lparr>sms_alerted := 1\<rparr>]\<rparr>)
   \<and> mark_channels 1 [''pagerduty'', ''sms'', ''slack; DROP TABLE incidents''] open_store
       = mark_channels 1 [''sms''] open_store"
proof -
  have nf: "faults open_store = []" by (simp add: open_store_def)
  note inst = marked_columns_are_alert_columns [where s = open_store and iid = 1
      and chans = "[''pagerduty'', ''sms'', ''slack; DROP TABLE incidents'']"]
  have a: "mark_channels 1 [''pagerduty'', ''sms'', ''slack; DROP TABLE incidents''] open_store
        = (None, open_store\<lparr>incidents := update_where_id 1
             (mark_row [''pagerduty'', ''sms'', ''slack; DROP TABLE incidents'']) (incidents open_store)\<rparr>)"
    using inst nf by blast
  have b: "update_where_id 1 (mark_row [''pagerduty'', ''sms'', ''slack; DROP TABLE incidents''])
             (incidents open_store) = [open_row\<lparr>sms_alerted := 1\<rparr>]"
    by (simp add: update_where_id_def open_store_def open_row_def mark_row_def)
  have c: "mark_channels 1 [''pagerduty'', ''sms'', ''slack; DROP TABLE incidents''] open_store
       = mark_channels 1 (filter (\<lambda>c. c \<in> set [''slack'', ''email'', ''sms''])
           [''pagerduty'', ''sms'', ''slack; DROP TABLE incidents'']) open_store"
    using inst by blast
  have d: "filter (\<lambda>c. c \<in> set [''slack'', ''email'', ''sms''])
           [''pagerduty'', ''sms'', ''slack; DROP TABLE incidents''] = [''sms'']"
    by simp
  show ?thesis using nf a b c d by simp
qed

section \<open>Channels of the initial and the recovery alert\<close>

lemma send_slack_via: "list_all via_slack (snd (send_slack cfg w t m c))"
  by (auto simp: send_slack_def Let_def via_slack_def split: outcome.splits)

lemma smtp_deliver_via: "\<not> list_ex via_slack (snd (smtp_deliver w p t m rs))"
  by (auto simp: smtp_deliver_def Let_def via_slack_def split: outcome.splits)

lemma send_email_via: "\<not> list_ex via_slack (snd (send_email w t m rs))"
  using smtp_deliver_via [of w _ t m rs]
  by (cases "smtp_port w") (auto simp: send_email_def via_slack_def)

lemma twilio_loop_via: "\<not> list_ex via_slack (twilio_loop w f m rs)"
  by (induction rs) (auto simp: Let_def via_slack_def split: outcome.splits)

lemma send_sms_via: "\<not> list_ex via_slack (snd (send_sms cfg w m))"
proof -
  have tw: "\<not> list_ex via_slack (snd (send_sms_twilio cfg w m))"
    using twilio_loop_via by (simp add: send_sms_twilio_def)
  have gw: "\<not> list_ex via_slack (snd (send_sms_email_gateway w m))"
    using send_email_via [of w WatchdogAlert "First160 m"]
    by (simp add: send_sms_email_gateway_def split: option.splits)
  show ?thesis using tw gw by (auto simp: send_sms_def via_slack_def split: prod.splits)
qed

lemma send_escalation_alert_via:
  "\<not> list_ex via_slack (snd (send_escalation_alert cfg w r inc n))
   \<and> (snd (send_escalation_alert cfg w r inc n) \<noteq> [] \<longrightarrow> email_due cfg r n \<or> sms_due cfg r n)"
proof -
  let ?mail = "send_email w (Escalation (r_name r) n) (FailureMessage r n)
                 (get_default (email_recipients cfg) [])"
  let ?sms = "send_sms cfg w (CriticalMessage r n)"
  let ?first = "if email_due cfg r n then ?mail else (None, [])"
  let ?second = "if sms_due cfg r n then ?sms else (None, [])"
  have unfold: "send_escalation_alert cfg w r inc n
        = (case ?first of (Some e, ev) \<Rightarrow> (Some e, ev)
           | (None, ev) \<Rightarrow> (case ?second of (x, ev') \<Rightarrow> (x, ev @ ev')))"
    by (simp only: send_escalation_alert_def Let_def email_due_def sms_due_def)
  obtain x1 ev1 where f: "?first = (x1, ev1)" by (cases ?first)
  obtain x2 ev2 where g: "?second = (x2, ev2)" by (cases ?second)
  have f1: "\<not> list_ex via_slack ev1" "ev1 \<noteq> [] \<longrightarrow> email_due cfg r n"
    using f send_email_via [of w "Escalation (r_name r) n" "FailureMessage r n" "get_default (email_recipients cfg) []"]
    by (auto split: if_splits)
  have g1: "\<not> list_ex via_slack ev2" "ev2 \<noteq> [] \<longrightarrow> sms_due cfg r n"
    using g send_sms_via [of cfg w "CriticalMessage r n"] by (auto split: if_splits)
  show ?thesis
  proof (cases x1)
    case None
    then have "snd (send_escalation_alert cfg w r inc n) = ev1 @ ev2" unfolding unfold f g by simp
    then show ?thesis using f1 g1 by auto
  next
    case (Some e)
    then have "snd (send_escalation_alert cfg w r inc n) = ev1" unfolding unfold f by simp
    then show ?thesis using f1 by auto
  qed
qed

lemma handle_result_events:
  "events_of (handle_result cfg w r s) = []
   \<or> (case open_incident (r_target_id r) (incidents s) of
         None \<Rightarrow> r_status r \<noteq> ''success''
                  \<and> events_of (handle_result cfg w r s) = snd (send_initial_alert cfg w r)
       | Some inc \<Rightarrow>
           if r_status r = ''success''
           then events_of (handle_result cfg w r s) = snd (send_recovery_alert cfg w r inc)
           else events_of (handle_result cfg w r s)
                = snd (send_escalation_alert cfg w r inc (failure_count inc + 1)))"
proof -
  obtain x s1 where g: "get_open_incident (r_target_id r) s = (x, s1)"
    by (cases "get_open_incident (r_target_id r) s")
  from get_open_incident_out [OF g]
  consider e where "x = Inl e" | "x = Inr (open_incident (r_target_id r) (incidents s))" by auto
  then show ?thesis
  proof cases
    case 1
    then show ?thesis using g by (simp add: handle_result_def events_of_def)
  next
    case 2
    then show ?thesis using g
      by (auto simp: handle_result_def events_of_def Let_def
               split: prod.splits sum.splits option.splits)
  qed
qed

lemma send_initial_alert_via:
  "list_all via_slack (snd (send_initial_alert cfg w r))
   \<and> (''slack'' \<notin> set (get_default (r_alert_channels r) []) \<longrightarrow> snd (send_initial_alert cfg w r) = [])"
  using send_slack_via [of cfg w "AlertDown (r_name r)" "FailureMessage r 1" "''danger''"]
  by (simp add: send_initial_alert_def Let_def)

lemma send_recovery_alert_via:
  "list_all via_slack (snd (send_recovery_alert cfg w r inc))
   \<and> (''slack'' \<notin> set (get_default (r_alert_channels r) []) \<longrightarrow> snd (send_recovery_alert cfg w r inc) = [])"
  using send_slack_via [of cfg w "Recovered (r_name r)" "RecoveryMessage r (failure_count inc)" "''good''"]
  by (simp add: send_recovery_alert_def Let_def)

text \<open>
  Claim C10. Every event of \<^verbatim>\<open>send_initial_alert\<close> and of \<^verbatim>\<open>send_recovery_alert\<close> belongs to
  the Slack sender, and there is none when \<^verbatim>\<open>slack\<close> is not among the alert channels of the
  result. In \<^verbatim>\<open>handle_result\<close>, for every store and whatever statements fail: a Slack
  event needs \<^verbatim>\<open>slack\<close> among the channels and occurs only on creation or resolution;
  any other event (email, SMS) occurs only for a non-success result on an open incident
  whose new failure count meets the email or the SMS condition of the escalation; and a
  result without \<^verbatim>\<open>slack\<close> produces no event at all on creation and on resolution.
\<close>

theorem initial_and_recovery_alerts_use_slack_only:
  "list_all via_slack (snd (send_initial_alert cfg w r))
   \<and> list_all via_slack (snd (send_recovery_alert cfg w r inc))
   \<and> (''slack'' \<notin> set (get_default (r_alert_channels r) [])
        \<longrightarrow> snd (send_initial_alert cfg w r) = [] \<and> snd (send_recovery_alert cfg w r inc) = [])
   \<and> (\<forall>e\<in>set (events_of (handle_result cfg w r s)).
        if via_slack e
        then ''slack'' \<in> set (get_default (r_alert_channels r) [])
             \<and> (r_status r = ''success'' \<or> open_incident (r_target_id r) (incidents s) = None)
        else r_status r \<noteq> ''success''
             \<and> (\<exists>i. open_incident (r_target_id r) (incidents s) = Some i
                  \<and> (email_due cfg r (failure_count i + 1) \<or> sms_due cfg r (failure_count i + 1))))
   \<and> (''slack'' \<notin> set (get_default (r_alert_channels r) [])
        \<and> (r_status r = ''success'' \<or> open_incident (r_target_id r) (incidents s) = None)
        \<longrightarrow> events_of (handle_result cfg w r s) = [])"
proof (intro conjI ballI impI)
  show "list_all via_slack (snd (send_initial_alert cfg w r))" using send_initial_alert_via by blast
  show "list_all via_slack (snd (send_recovery_alert cfg w r inc))" using send_recovery_alert_via by blast
next
  assume "''slack'' \<notin> set (get_default (r_alert_channels r) [])"
  then show "snd (send_initial_alert cfg w r) = []" "snd (send_recovery_alert cfg w r inc) = []"
    using send_initial_alert_via send_recovery_alert_via by blast+
next
  fix e assume e: "e \<in> set (events_of (handle_result cfg w r s))"
  then have ne: "events_of (handle_result cfg w r s) \<noteq> []" by auto
  show "if via_slack e
        then ''slack'' \<in> set (get_default (r_alert_channels r) [])
             \<and> (r_status r = ''success'' \<or> open_incident (r_target_id r) (incidents s) = None)
        else r_status r \<noteq> ''success''
             \<and> (\<exists>i. open_incident (r_target_id r) (incidents s) = Some i
                  \<and> (email_due cfg r (failure_count i + 1) \<or> sms_due cfg r (failure_count i + 1)))"
  proof (cases "open_incident (r_target_id r) (incidents s)")
    case None
    then have ev: "events_of (handle_result cfg w r s) = snd (send_initial_alert cfg w r)"
      using handle_result_events [of cfg w r s] ne by auto
    then have "via_slack e" using e send_initial_alert_via [of cfg w r] by (auto simp: list_all_iff)
    moreover have "''slack'' \<in> set (get_default (r_alert_channels r) [])"
      using ev ne send_initial_alert_via [of cfg w r] by auto
    ultimately show ?thesis using None by simp
  next
    case (Some i)
    show ?thesis
    proof (cases "r_status r = ''success''")
      case True
      then have ev: "events_of (handle_result cfg w r s) = snd (send_recovery_alert cfg w r i)"
        using handle_result_events [of cfg w r s] ne Some by auto
      then have "via_slack e" using e send_recovery_alert_via [of cfg w r i] by (auto simp: list_all_iff)
      moreover have "''slack'' \<in> set (get_default (r_alert_channels r) [])"
        using ev ne send_recovery_alert_via [of cfg w r i] by auto
      ultimately show ?thesis using True by simp
    next
      case False
      then have ev: "events_of (handle_result cfg w r s)
                     = snd (send_escalation_alert cfg w r i (failure_count i + 1))"
        using handle_result_events [of cfg w r s] ne Some by auto
      then have "\<not> via_slack e"
        using e send_escalation_alert_via [of cfg w r i "failure_count i + 1"] by (auto simp: list_ex_iff)
      moreover have "email_due cfg r (failure_count i + 1) \<or> sms_due cfg r (failure_count i + 1)"
        using ev ne send_escalation_alert_via [of cfg w r i "failure_count i + 1"] by auto
      ultimately show ?thesis using False Some by simp
    qed
  qed
next
  assume a: "''slack'' \<notin> set (get_default (r_alert_channels r) [])
        \<and> (r_status r = ''success'' \<or> open_incident (r_target_id r) (incidents s) = None)"
  show "events_of (handle_result cfg w r s) = []"
  proof (cases "open_incident (r_target_id r) (incidents s)")
    case None
    then show ?thesis
      using handle_result_events [of cfg w r s] a send_initial_alert_via [of cfg w r] by auto
  next
    case (Some i)
    then have "r_status r = ''success''" using a by simp
    then show ?thesis
      using handle_result_events [of cfg w r s] a Some send_recovery_alert_via [of cfg w r i] by auto
  qed
qed

theorem initial_and_recovery_alerts_use_slack_only_witness:
  "get_default (r_alert_channels email_only_result) [] = [''email'']
   \<and> open_incident (r_target_id email_only_result) (incidents empty_store) = None
   \<and> snd (send_initial_alert scenario_config quiet_world email_only_result) = []
   \<and> events_of (handle_result scenario_config quiet_world email_only_result empty_store) = []"
proof -
  have c: "get_default (r_alert_channels email_only_result) [] = [''email'']"
    by (simp add: email_only_result_def get_default_def)
  then have n: "''slack'' \<notin> set (get_default (r_alert_channels email_only_result) [])" by simp
  have o: "open_incident (r_target_id email_only_result) (incidents empty_store) = None"
    by (simp add: empty_store_def open_incident_def open_rows_def)
  note inst = initial_and_recovery_alerts_use_slack_only [where cfg = scenario_config
      and w = quiet_world and r = email_only_result and s = empty_store]
  have a: "snd (send_initial_alert scenario_config quiet_world email_only_result) = []"
    using inst n by blast
  have b: "events_of (handle_result scenario_config quiet_world email_only_result empty_store) = []"
    using inst n o by blast
  show ?thesis using c o a b by simp
qed

section \<open>Send failures and persistence\<close>

lemma smtp_deliver_fst: "fst (smtp_deliver w p t m rs) = None"
  by (simp add: smtp_deliver_def Let_def split: outcome.splits)

lemma send_email_fst: "fst (send_email w t m rs) = port_error w"
  by (cases "smtp_port w") (simp_all add: send_email_def smtp_deliver_fst port_error_def)

lemma port_error_invalid: "port_error w \<noteq> None \<longleftrightarrow> port_invalid w"
  by (cases "smtp_port w") (simp_all add: port_error_def port_invalid_def)

lemma send_sms_twilio_fst: "fst (send_sms_twilio cfg w m) = None"
  by (simp add: send_sms_twilio_def)

lemma send_sms_fst:
  "fst (send_sms cfg w m)
   = (if get_default (sms_method cfg) ''email_gateway'' = ''twilio'' then None
      else if truthy (sms_email_gateway w) then port_error w
      else None)"
proof -
  have gw: "fst (send_sms_email_gateway w m) = (if truthy (sms_email_gateway w) then port_error w else None)"
    by (simp add: send_sms_email_gateway_def truthy_def send_email_fst split: option.splits)
  show ?thesis
    using gw send_sms_twilio_fst [of cfg w m] by (auto simp: send_sms_def split: prod.splits)
qed

lemma send_escalation_alert_fst:
  "fst (send_escalation_alert cfg w r inc n)
   = (if email_due cfg r n \<and> port_error w \<noteq> None then port_error w
      else if sms_due cfg r n then fst (send_sms cfg w (CriticalMessage r n)) else None)"
proof -
  let ?mail = "send_email w (Escalation (r_name r) n) (FailureMessage r n)
                 (get_default (email_recipients cfg) [])"
  let ?sms = "send_sms cfg w (CriticalMessage r n)"
  let ?first = "if email_due cfg r n then ?mail else (None, [])"
  let ?second = "if sms_due cfg r n then ?sms else (None, [])"
  have unfold: "send_escalation_alert cfg w r inc n
        = (case ?first of (Some e, ev) \<Rightarrow> (Some e, ev)
           | (None, ev) \<Rightarrow> (case ?second of (x, ev') \<Rightarrow> (x, ev @ ev')))"
    by (simp only: send_escalation_alert_def Let_def email_due_def sms_due_def)
  obtain x1 ev1 where f: "?first = (x1, ev1)" by (cases ?first)
  obtain x2 ev2 where g: "?second = (x2, ev2)" by (cases ?second)
  have "x1 = fst ?first" using f by simp
  then have x1: "x1 = (if email_due cfg r n then port_error w else None)"
    by (simp add: send_email_fst)
  have "x2 = fst ?second" using g by simp
  then have x2: "x2 = (if sms_due cfg r n then fst ?sms else None)" by simp
  show ?thesis
  proof (cases x1)
    case None
    then have "fst (send_escalation_alert cfg w r inc n) = x2" unfolding unfold f g by simp
    then show ?thesis using x2 x1 None by (auto split: if_splits)
  next
    case (Some e)
    then have "fst (send_escalation_alert cfg w r inc n) = x1" unfolding unfold f by simp
    then show ?thesis using x1 Some by (auto split: if_splits)
  qed
qed

lemma port_error_transport: "port_error (w\<lparr>transport := tr\<rparr>) = port_error w"
  by (simp add: port_error_def)

lemma send_escalation_alert_transport:
  "fst (send_escalation_alert cfg (w\<lparr>transport := tr\<rparr>) r inc n)
   = fst (send_escalation_alert cfg w r inc n)"
  by (simp add: send_escalation_alert_fst send_sms_fst port_error_transport)

lemma send_escalation_alert_raises:
  "\<not> port_invalid w \<Longrightarrow> fst (send_escalation_alert cfg w r inc n) = None"
  using port_error_invalid [of w] by (simp add: send_escalation_alert_fst send_sms_fst)

lemma handle_result_store_any:
  "store_of (handle_result cfg w r s) =
     (case get_open_incident (r_target_id r) s of
        (Inl e, s1) \<Rightarrow> s1
      | (Inr io, s1) \<Rightarrow>
          if r_status r = ''success'' then
            (case io of Some inc \<Rightarrow> snd (resolve_incident (clock w) (inc_id inc) s1) | None \<Rightarrow> s1)
          else
            (case io of
               Some inc \<Rightarrow> snd (update_incident (inc_id inc) (r_check_id r) True s1)
             | None \<Rightarrow>
                 (case create_incident (clock w) (r_target_id r) (r_check_id r) s1 of
                    (Inl e, s2) \<Rightarrow> s2
                  | (Inr iid, s2) \<Rightarrow>
                      snd (mark_channels iid (get_default (r_alert_channels r) [''slack'']) s2))))"
  using send_initial_alert_no_raise [of cfg w r]
  by (cases "send_initial_alert cfg w r")
     (auto simp: handle_result_def store_of_def Let_def split: prod.splits sum.splits option.splits)

lemma send_recovery_alert_pair: "send_recovery_alert cfg w r inc = (x, ev) \<Longrightarrow> x = None"
  using send_recovery_alert_no_raise [of cfg w r inc] by simp

lemma handle_result_raised_any:
  "raised (handle_result cfg w r s) =
     (case get_open_incident (r_target_id r) s of
        (Inl e, s1) \<Rightarrow> Some e
      | (Inr io, s1) \<Rightarrow>
          if r_status r = ''success'' then
            (case io of
               Some inc \<Rightarrow> (case resolve_incident (clock w) (inc_id inc) s1 of
                               (Inl e, s2) \<Rightarrow> Some e | (Inr u, s2) \<Rightarrow> None)
             | None \<Rightarrow> None)
          else
            (case io of
               Some inc \<Rightarrow> (case update_incident (inc_id inc) (r_check_id r) True s1 of
                               (Inl e, s2) \<Rightarrow> Some e
                             | (Inr u, s2) \<Rightarrow>
                                 fst (send_escalation_alert cfg w r inc (failure_count inc + 1)))
             | None \<Rightarrow>
                 (case create_incident (clock w) (r_target_id r) (r_check_id r) s1 of
                    (Inl e, s2) \<Rightarrow> Some e
                  | (Inr iid, s2) \<Rightarrow>
                      fst (mark_channels iid (get_default (r_alert_channels r) [''slack'']) s2))))"
  using send_initial_alert_no_raise [of cfg w r]
  by (cases "send_initial_alert cfg w r")
     (auto simp: handle_result_def raised_def Let_def dest: send_recovery_alert_pair
           split: prod.splits sum.splits option.splits)

text \<open>
  What holds of the sends. What the transports do (deliver, reject, raise) changes
  neither the store that \<^verbatim>\<open>handle_result\<close> leaves nor the exception it raises: their
  errors are caught inside the senders. The store depends on the world through the clock
  only, so the incident change is committed whatever happens in the alerter afterwards.
  When no statement of the store fails and \<^verbatim>\<open>SMTP_PORT\<close> is not malformed,
  \<^verbatim>\<open>handle_result\<close> raises nothing. On creation the new incident has the alert column of
  each of \<^verbatim>\<open>slack\<close>, \<^verbatim>\<open>email\<close>, \<^verbatim>\<open>sms\<close> set exactly when that channel is listed, in every
  world, hence whether or not the send succeeded.
\<close>

lemma transports_leave_persistence_alone:
  "store_of (handle_result cfg (w\<lparr>transport := tr\<rparr>) r s) = store_of (handle_result cfg w r s)
   \<and> raised (handle_result cfg (w\<lparr>transport := tr\<rparr>) r s) = raised (handle_result cfg w r s)
   \<and> (clock w' = clock w
        \<longrightarrow> store_of (handle_result cfg w' r s) = store_of (handle_result cfg w r s))
   \<and> (faults s = [] \<and> \<not> port_invalid w \<longrightarrow> raised (handle_result cfg w r s) = None)
   \<and> (faults s = [] \<and> open_incident (r_target_id r) (incidents s) = None
        \<and> r_status r \<noteq> ''success'' \<longrightarrow>
        (\<exists>new. incidents (store_of (handle_result cfg w r s)) = incidents s @ [new]
           \<and> slack_alerted new
               = (if ''slack'' \<in> set (get_default (r_alert_channels r) [''slack'']) then 1 else 0)
           \<and> email_alerted new
               = (if ''email'' \<in> set (get_default (r_alert_channels r) [''slack'']) then 1 else 0)
           \<and> sms_alerted new
               = (if ''sms'' \<in> set (get_default (r_alert_channels r) [''slack'']) then 1 else 0)))"
proof (intro conjI impI)
  show "store_of (handle_result cfg (w\<lparr>transport := tr\<rparr>) r s) = store_of (handle_result cfg w r s)"
    by (simp add: handle_result_store_any
          cong: prod.case_cong sum.case_cong option.case_cong if_cong)
  show "raised (handle_result cfg (w\<lparr>transport := tr\<rparr>) r s) = raised (handle_result cfg w r s)"
    by (simp add: handle_result_raised_any send_escalation_alert_transport
          cong: prod.case_cong sum.case_cong option.case_cong if_cong)
next
  assume "clock w' = clock w"
  then show "store_of (handle_result cfg w' r s) = store_of (handle_result cfg w r s)"
    by (simp add: handle_result_store_any
          cong: prod.case_cong sum.case_cong option.case_cong if_cong)
next
  assume a: "faults s = [] \<and> \<not> port_invalid w"
  show "raised (handle_result cfg w r s) = None"
  proof (cases "open_incident (r_target_id r) (incidents s)")
    case None
    show ?thesis
    proof (cases "r_status r = ''success''")
      case True
      then show ?thesis using a None handle_result_idle [of s r cfg w] by (simp add: raised_def)
    next
      case False
      then show ?thesis using a None handle_result_create [of s r cfg w] by (simp add: raised_def)
    qed
  next
    case (Some i)
    show ?thesis
    proof (cases "r_status r = ''success''")
      case True
      then show ?thesis using a Some handle_result_resolve [of s r i cfg w] by (simp add: raised_def)
    next
      case False
      then show ?thesis
        using a Some handle_result_continue [of s r i cfg w]
          send_escalation_alert_raises [of w cfg r i "failure_count i + 1"]
        by (simp add: raised_def)
    qed
  qed
next
  assume a: "faults s = [] \<and> open_incident (r_target_id r) (incidents s) = None
        \<and> r_status r \<noteq> ''success''"
  let ?new = "mark_row (get_default (r_alert_channels r) [''slack''])
                (new_incident (clock w) (next_rowid (map inc_id (incidents s)))
                   (r_target_id r) (r_check_id r))"
  have "incidents (store_of (handle_result cfg w r s)) = incidents s @ [?new]"
    using a handle_result_create [of s r cfg w] by (simp add: store_of_def)
  moreover have "slack_alerted ?new
               = (if ''slack'' \<in> set (get_default (r_alert_channels r) [''slack'']) then 1 else 0)"
    "email_alerted ?new
               = (if ''email'' \<in> set (get_default (r_alert_channels r) [''slack'']) then 1 else 0)"
    "sms_alerted ?new
               = (if ''sms'' \<in> set (get_default (r_alert_channels r) [''slack'']) then 1 else 0)"
    by (simp_all add: mark_row_def new_incident_def)
  ultimately show "\<exists>new. incidents (store_of (handle_result cfg w r s)) = incidents s @ [new]
           \<and> slack_alerted new
               = (if ''slack'' \<in> set (get_default (r_alert_channels r) [''slack'']) then 1 else 0)
           \<and> email_alerted new
               = (if ''email'' \<in> set (get_default (r_alert_channels r) [''slack'']) then 1 else 0)
           \<and> sms_alerted new
               = (if ''sms'' \<in> set (get_default (r_alert_channels r) [''slack'']) then 1 else 0)"
    by blast
qed

lemma raising_transport_is_absorbed:
  "faults open_store = []
   \<and> smtp_port unreachable_world = PortInt 587
   \<and> raised (handle_result default_config unreachable_world failing_result open_store) = None
   \<and> map failure_count
         (incidents (store_of (handle_result default_config unreachable_world failing_result open_store)))
       = [3]
   \<and> map (\<lambda>e. case e of Attempt d out \<Rightarrow> Some out | _ \<Rightarrow> None)
         (events_of (handle_result default_config unreachable_world failing_result open_store))
       = [None, Some (Raised ''connection refused'')]"
proof -
  have h1: "faults open_store = []" by (simp add: open_store_def)
  have h2: "smtp_port unreachable_world = PortInt 587" by (simp add: unreachable_world_def)
  then have h3: "\<not> port_invalid unreachable_world" by (simp add: port_invalid_def)
  have a: "raised (handle_result default_config unreachable_world failing_result open_store) = None"
    using transports_leave_persistence_alone [where cfg = default_config
        and w = unreachable_world and r = failing_result and s = open_store] h1 h3
    by blast
  have b: "map failure_count
         (incidents (store_of (handle_result default_config unreachable_world failing_result open_store)))
       = [3]
   \<and> map (\<lambda>e. case e of Attempt d out \<Rightarrow> Some out | _ \<Rightarrow> None)
         (events_of (handle_result default_config unreachable_world failing_result open_store))
       = [None, Some (Raised ''connection refused'')]"
    by code_simp
  show ?thesis using h1 h2 a b by blast
qed

text \<open>
  Claim C6. The claim fails on the code at an email escalation when \<^verbatim>\<open>SMTP_PORT\<close> is
  malformed: \<^verbatim>\<open>int(os.getenv('SMTP_PORT', 587))\<close> stands before the \<^verbatim>\<open>try\<close> block of
  \<^verbatim>\<open>_send_email\<close>, so its \<^verbatim>\<open>ValueError\<close> is not absorbed in the alerter and is raised out of
  \<^verbatim>\<open>handle_result\<close>. The update of the incident is committed before (the failure count is
  3 afterwards). In the same world with a well-formed port, where every delivery raises,
  \<^verbatim>\<open>handle_result\<close> raises nothing.
\<close>

theorem invalid_port_raises_after_commit:
  "smtp_port bad_port_world = PortInvalid ''abc''
   \<and> raised (handle_result default_config bad_port_world failing_result open_store)
       = Some (ValueError (''invalid literal for int() with base 10: '' @ [CHR 0x27] @ ''abc'' @ [CHR 0x27]))
   \<and> map failure_count
         (incidents (store_of (handle_result default_config bad_port_world failing_result open_store)))
       = [3]
   \<and> raised (handle_result default_config unreachable_world failing_result open_store) = None"
  by code_simp

end
